theory Spec2Isabelle
  imports Complex_Main "HOL-Library.Multiset"
begin

section \<open>JavaScript values used by the WebCodec helper\<close>

text \<open>
  Frame numbers, decode indices, timestamps and byte counts are integral in this program;
  they are modelled as \<open>nat\<close> or \<open>int\<close>. A \<open>count\<close> argument can also be one of the
  non-finite numbers that \<^verbatim>\<open>Number.isFinite\<close> rejects.
\<close>

datatype number = Finite int | PosInf | NegInf | NaN

fun isFinite :: "number \<Rightarrow> bool" where
  "isFinite (Finite _) = True"
| "isFinite _ = False"

text \<open>\<^verbatim>\<open>a !== b\<close> on numbers: \<^verbatim>\<open>NaN\<close> differs from everything, itself included.\<close>

fun strictNe :: "number \<Rightarrow> number \<Rightarrow> bool" where
  "strictNe NaN _ = True"
| "strictNe _ NaN = True"
| "strictNe a b = (a \<noteq> b)"

text \<open>\<^verbatim>\<open>count <= 0\<close>\<close>

fun leqZero :: "number \<Rightarrow> bool" where
  "leqZero (Finite c) = (c \<le> 0)"
| "leqZero NegInf = True"
| "leqZero PosInf = False"
| "leqZero NaN = False"

text \<open>\<^verbatim>\<open>start + count - 1 < bound\<close> for an integral \<open>start\<close> and \<open>bound\<close>.\<close>

fun requestEndLess :: "int \<Rightarrow> number \<Rightarrow> int \<Rightarrow> bool" where
  "requestEndLess start (Finite c) bound = (start + c - 1 < bound)"
| "requestEndLess start NegInf bound = True"
| "requestEndLess start PosInf bound = False"
| "requestEndLess start NaN bound = False"

text \<open>
  A JavaScript array with holes is a list of options. Reading out of range gives
  \<^verbatim>\<open>undefined\<close> (here \<open>None\<close>); writing out of range extends the array with holes.
\<close>

definition js_get :: "'a option list \<Rightarrow> nat \<Rightarrow> 'a option" where
  "js_get xs i = (if i < length xs then xs ! i else None)"

definition js_get_int :: "'a option list \<Rightarrow> int \<Rightarrow> 'a option" where
  "js_get_int xs i = (if 0 \<le> i then js_get xs (nat i) else None)"

definition js_set :: "'a option list \<Rightarrow> nat \<Rightarrow> 'a \<Rightarrow> 'a option list" where
  "js_set xs i v =
     (if i < length xs then xs[i := Some v]
      else xs @ replicate (i - length xs) None @ [Some v])"

text \<open>\<^verbatim>\<open>Math.round\<close>: to the nearest integer, halves upwards. Exact arithmetic stands
  for the double-precision computation; no property below depends on a timestamp's value.\<close>

definition js_round :: "rat \<Rightarrow> int" where
  "js_round x = \<lfloor>x + 1 / 2\<rfloor>"

section \<open>Data model\<close>

record sample =
  cts :: "int option"
  dts :: "int option"
  is_sync :: bool
  duration :: "int option"
  compositionTimestamp :: "int option"
  timestampMicros :: "int option"
  frameIndex :: "nat option"

record timelineEntry =
  t_decodeIndex :: nat
  t_timestampMicros :: int

text \<open>A queue entry is an object: \<open>q_uid\<close> is its identity, which \<^verbatim>\<open>indexOf\<close> compares.\<close>

record queueEntry =
  q_uid :: nat
  q_sampleIndex :: nat
  q_frameIndex :: "nat option"
  q_deliver :: bool
  q_timestamp :: int

datatype copyMethod = Direct | Canvas

record asset =
  ptr :: nat
  decoder :: nat
  width :: nat
  height :: nat
  timescale :: int
  fps :: rat
  totalFrames :: int
  initialPrefillFrames :: nat
  isInitialPrefill :: bool
  currentPrefillIndex :: nat
  frameBytes :: nat
  canvas :: "(nat \<times> nat) option"
  canvasCleanup :: bool
  pendingPrefetch :: "(int \<times> number) option"
  prefillRequested :: bool
  decodeQueue :: "queueEntry list"
  decodeQueueByTimestamp :: "int \<rightharpoonup> queueEntry list"
  frameToDecode :: "nat option list"
  decodeToFrame :: "nat option list"
  frameTimestamps :: "int option list"
  samples :: "sample list option"
  currentFetchRange :: "(int \<times> int) option"
  useStrideSize :: bool
  copyMethod :: "copyMethod option"
  nextUid :: nat

text \<open>
  In \<open>asset\<close>, \<open>ptr = 0\<close> is the null pointer, \<open>decoder\<close> is the handle of the asset's
  \<^verbatim>\<open>VideoDecoder\<close>, \<open>samples = None\<close> is the field before the first sample batch, and
  \<open>nextUid\<close> numbers the queue-entry objects as they are created.
\<close>

section \<open>Presentation timeline\<close>

definition getCompositionTimestamp :: "sample \<Rightarrow> int option" where
  "getCompositionTimestamp s =
     (case cts s of Some c \<Rightarrow> Some c
      | None \<Rightarrow> (case dts s of Some d \<Rightarrow> Some d | None \<Rightarrow> None))"

definition convertTimestampToMicros :: "int option \<Rightarrow> int \<Rightarrow> nat \<Rightarrow> rat \<Rightarrow> int" where
  "convertTimestampToMicros ct tscale decodeIndex fpsv =
     (case ct of
        Some c \<Rightarrow> js_round ((of_int c / of_int tscale) * 1000000)
      | None \<Rightarrow>
          (let frameDurationMicros = (if fpsv \<noteq> 0 then js_round (1000000 / fpsv) else 0)
           in int decodeIndex * frameDurationMicros))"

text \<open>The callback of \<^verbatim>\<open>samples.map\<close>: stamps the sample and yields its timeline entry.\<close>

definition timelineMapStep :: "int \<Rightarrow> rat \<Rightarrow> nat \<times> sample \<Rightarrow> sample \<times> timelineEntry" where
  "timelineMapStep tscale fpsv p =
     (case p of (decodeIndex, s) \<Rightarrow>
        (let ct = getCompositionTimestamp s;
             tm = convertTimestampToMicros ct tscale decodeIndex fpsv
         in (s\<lparr>compositionTimestamp := ct, timestampMicros := Some tm\<rparr>,
             \<lparr>t_decodeIndex = decodeIndex, t_timestampMicros = tm\<rparr>)))"

text \<open>The comparator handed to \<^verbatim>\<open>timeline.sort\<close>.\<close>

definition compareEntries :: "timelineEntry \<Rightarrow> timelineEntry \<Rightarrow> int" where
  "compareEntries a b =
     (if t_timestampMicros a \<noteq> t_timestampMicros b
      then t_timestampMicros a - t_timestampMicros b
      else int (t_decodeIndex a) - int (t_decodeIndex b))"

text \<open>
  \<^verbatim>\<open>Array.prototype.sort\<close> is stable; a stable insertion sort by the comparator gives
  the order it gives.
\<close>

fun insertEntry :: "timelineEntry \<Rightarrow> timelineEntry list \<Rightarrow> timelineEntry list" where
  "insertEntry e [] = [e]"
| "insertEntry e (x # xs) =
     (if compareEntries e x \<le> 0 then e # x # xs else x # insertEntry e xs)"

fun sortTimeline :: "timelineEntry list \<Rightarrow> timelineEntry list" where
  "sortTimeline [] = []"
| "sortTimeline (e # es) = insertEntry e (sortTimeline es)"

record timelineTables =
  tb_samples :: "sample list"
  tb_frameToDecode :: "nat option list"
  tb_frameTimestamps :: "int option list"
  tb_decodeToFrame :: "nat option list"

text \<open>The callback of \<^verbatim>\<open>timeline.forEach\<close>, applied to \<open>(frameIndex, entry)\<close>.\<close>

definition timelineForEachStep :: "nat \<times> timelineEntry \<Rightarrow> timelineTables \<Rightarrow> timelineTables" where
  "timelineForEachStep p T =
     (case p of (fi, entry) \<Rightarrow>
        T\<lparr>tb_frameToDecode := js_set (tb_frameToDecode T) fi (t_decodeIndex entry),
          tb_frameTimestamps := js_set (tb_frameTimestamps T) fi (t_timestampMicros entry),
          tb_decodeToFrame := js_set (tb_decodeToFrame T) (t_decodeIndex entry) fi,
          tb_samples := (tb_samples T)[t_decodeIndex entry :=
             ((tb_samples T) ! (t_decodeIndex entry))\<lparr>frameIndex := Some fi\<rparr>]\<rparr>)"

definition buildTimeline :: "int \<Rightarrow> rat \<Rightarrow> sample list \<Rightarrow> timelineTables" where
  "buildTimeline tscale fpsv ss =
     (let mapped = map (timelineMapStep tscale fpsv) (enumerate 0 ss);
          timeline = sortTimeline (map snd mapped)
      in fold timelineForEachStep (enumerate 0 timeline)
           \<lparr>tb_samples = map fst mapped, tb_frameToDecode = [], tb_frameTimestamps = [],
            tb_decodeToFrame = replicate (length timeline) None\<rparr>)"

definition updatePresentationTimeline :: "asset \<Rightarrow> asset" where
  "updatePresentationTimeline a =
     (case samples a of
        None \<Rightarrow> a\<lparr>frameToDecode := [], decodeToFrame := [], frameTimestamps := []\<rparr>
      | Some ss \<Rightarrow>
          if ss = [] then a\<lparr>frameToDecode := [], decodeToFrame := [], frameTimestamps := []\<rparr>
          else (let T = buildTimeline (timescale a) (fps a) ss
                in a\<lparr>samples := Some (tb_samples T),
                     frameToDecode := tb_frameToDecode T,
                     decodeToFrame := tb_decodeToFrame T,
                     frameTimestamps := tb_frameTimestamps T\<rparr>))"

definition hasFramesForRange :: "asset \<Rightarrow> int \<Rightarrow> number \<Rightarrow> bool" where
  "hasFramesForRange a start cnt =
     (if \<not> isFinite cnt \<or> leqZero cnt then False
      else if frameToDecode a = [] then False
      else (case cnt of
              Finite c \<Rightarrow>
                (let endFrame = start + c - 1
                 in if int (length (frameToDecode a)) \<le> endFrame then False
                    else list_all (\<lambda>frame. js_get_int (frameToDecode a) frame \<noteq> None)
                           [start..endFrame])
            | _ \<Rightarrow> False))"

section \<open>Platform objects and the asset registry\<close>

datatype decoderState = Unconfigured | Configured | Closed

record encodedVideoChunk =
  chunk_key :: bool
  chunk_timestamp :: int
  chunk_duration :: "int option"
  chunk_data :: nat

datatype timerCallback = RetryFeedBatch string int number | ClearFetchRange string

text \<open>What a handler does to the outside, in the order it does it. \<open>QueuePrefillDone\<close>
  is the \<^verbatim>\<open>.then\<close> that queues the callback of the initial prefill as a microtask.\<close>

datatype effect =
    ConsoleWarn
  | ConsoleError
  | Mp4boxFlush
  | SetTimeout timerCallback nat
  | DecoderDecode nat encodedVideoChunk
  | DecoderClose nat
  | FrameClose
  | FrameCopyTo
  | CanvasCopy
  | OnPrefetchFrame string nat nat nat nat
  | Render
  | CreateWebAsset string
  | SetVideoAssetInfo string int rat nat
  | RemoveCanvas
  | QueuePrefillDone

datatype promiseState = Pending | Resolved | Rejected string

text \<open>
  \<open>world\<close> gathers \<^verbatim>\<open>window._videoAssets\<close> (\<open>None\<close> while undefined), the state of
  every \<^verbatim>\<open>VideoDecoder\<close> by handle, the engine's heap (the addresses handed out by
  \<^verbatim>\<open>_malloc\<close> and not yet freed), the player's flags and the preparation promise.
\<close>

record world =
  videoAssets :: "(string \<rightharpoonup> asset) option"
  decoders :: "nat \<Rightarrow> decoderState"
  nextDecoder :: nat
  heap :: "nat set"
  nextAddr :: nat
  hasSurface :: bool
  playing :: bool
  videoReady :: bool
  offscreenCanvasAvailable :: bool
  documentAvailable :: bool
  preparation :: promiseState

definition lookupAsset :: "world \<Rightarrow> string \<Rightarrow> asset option" where
  "lookupAsset w assetId = (case videoAssets w of None \<Rightarrow> None | Some assets \<Rightarrow> assets assetId)"

text \<open>Writing a field of a registered asset object.\<close>

definition storeAsset :: "world \<Rightarrow> string \<Rightarrow> asset \<Rightarrow> world" where
  "storeAsset w assetId a =
     w\<lparr>videoAssets := Some ((case videoAssets w of None \<Rightarrow> Map.empty | Some assets \<Rightarrow> assets)
                               (assetId \<mapsto> a))\<rparr>"

definition malloc :: "nat \<Rightarrow> world \<Rightarrow> nat \<times> world" where
  "malloc n w = (nextAddr w, w\<lparr>heap := insert (nextAddr w) (heap w),
                                 nextAddr := nextAddr w + max n 1\<rparr>)"

definition free :: "nat \<Rightarrow> world \<Rightarrow> world" where
  "free p w = w\<lparr>heap := heap w - {p}\<rparr>"

section \<open>Batch feeder\<close>

definition overlapsCurrentFetch :: "asset \<Rightarrow> int \<Rightarrow> number \<Rightarrow> bool" where
  "overlapsCurrentFetch a start cnt =
     (case currentFetchRange a of
        None \<Rightarrow> False
      | Some (fetchStart, fetchEnd) \<Rightarrow>
          \<not> (requestEndLess start cnt fetchStart \<or> start > fetchEnd))"

definition pendingDiffers :: "asset \<Rightarrow> int \<Rightarrow> number \<Rightarrow> bool" where
  "pendingDiffers a start cnt =
     (case pendingPrefetch a of
        None \<Rightarrow> True
      | Some (ps, pc) \<Rightarrow> ps \<noteq> start \<or> strictNe pc cnt)"

text \<open>\<^verbatim>\<open>samples[i]?.is_sync\<close>\<close>

definition syncAt :: "sample list \<Rightarrow> nat \<Rightarrow> bool" where
  "syncAt ss i = (i < length ss \<and> is_sync (ss ! i))"

text \<open>The backward scan \<^verbatim>\<open>for (let i = minDecodeIndex; i >= 0; i--)\<close>; \<open>None\<close> when it
  runs past index 0 without a \<^verbatim>\<open>break\<close>.\<close>

fun scanKeyframe :: "sample list \<Rightarrow> nat \<Rightarrow> nat option" where
  "scanKeyframe ss 0 = (if syncAt ss 0 then Some 0 else None)"
| "scanKeyframe ss (Suc i) = (if syncAt ss (Suc i) then Some (Suc i) else scanKeyframe ss i)"

definition findKeyframeIndex :: "sample list \<Rightarrow> nat \<Rightarrow> nat" where
  "findKeyframeIndex ss minDecodeIndex =
     (case scanKeyframe ss minDecodeIndex of Some i \<Rightarrow> i | None \<Rightarrow> minDecodeIndex)"

definition minOfList :: "nat list \<Rightarrow> nat" where
  "minOfList xs = fold min (tl xs) (hd xs)"

definition maxOfList :: "nat list \<Rightarrow> nat" where
  "maxOfList xs = fold max (tl xs) (hd xs)"

definition makeQueueEntry :: "asset \<Rightarrow> sample list \<Rightarrow> int list \<Rightarrow> nat \<Rightarrow> queueEntry" where
  "makeQueueEntry a ss framesToDeliver index =
     (let smp = ss ! index;
          frameIndexRaw = js_get (decodeToFrame a) index;
          tm = (case timestampMicros smp of
                  Some t \<Rightarrow> t
                | None \<Rightarrow> convertTimestampToMicros (compositionTimestamp smp) (timescale a) index (fps a))
      in \<lparr>q_uid = nextUid a, q_sampleIndex = index, q_frameIndex = frameIndexRaw,
          q_deliver = (case frameIndexRaw of None \<Rightarrow> False
                       | Some f \<Rightarrow> int f \<in> set framesToDeliver),
          q_timestamp = tm\<rparr>)"

definition makeChunk :: "asset \<Rightarrow> sample list \<Rightarrow> nat \<Rightarrow> int \<Rightarrow> encodedVideoChunk" where
  "makeChunk a ss index tm =
     \<lparr>chunk_key = is_sync (ss ! index), chunk_timestamp = tm,
      chunk_duration = (case duration (ss ! index) of
                          None \<Rightarrow> None
                        | Some d \<Rightarrow> Some (js_round ((of_int d / of_int (timescale a)) * 1000000))),
      chunk_data = index\<rparr>"

text \<open>
  One turn of the submission loop for a sample that exists: push the queue entry on the
  flat queue and on its timestamp bucket, then call \<^verbatim>\<open>decoder.decode\<close>, which throws
  (and is logged) unless the decoder is configured.
\<close>

definition submitSample ::
  "decoderState \<Rightarrow> sample list \<Rightarrow> int list \<Rightarrow> nat \<Rightarrow> asset \<times> effect list \<Rightarrow> asset \<times> effect list" where
  "submitSample dstate ss framesToDeliver index st =
     (case st of (a, effs) \<Rightarrow>
        (let queueEntry = makeQueueEntry a ss framesToDeliver index;
             tm = q_timestamp queueEntry;
             byTs = decodeQueueByTimestamp a;
             a' = a\<lparr>decodeQueue := decodeQueue a @ [queueEntry],
                    decodeQueueByTimestamp :=
                      (case byTs tm of
                         Some existing \<Rightarrow> byTs(tm \<mapsto> existing @ [queueEntry])
                       | None \<Rightarrow> byTs(tm \<mapsto> [queueEntry])),
                    nextUid := Suc (nextUid a)\<rparr>
         in (a', effs @ [DecoderDecode (decoder a) (makeChunk a ss index tm)]
                      @ (if dstate = Configured then [] else [ConsoleError]))))"

text \<open>\<open>feedBatch\<close> past the readiness gate, where \<open>count\<close> is a finite positive number.\<close>

definition feedBatchSubmit ::
  "string \<Rightarrow> int \<Rightarrow> int \<Rightarrow> asset \<Rightarrow> sample list \<Rightarrow> world \<Rightarrow> world \<times> effect list" where
  "feedBatchSubmit assetId start c a0 ss w =
     (let a = a0\<lparr>pendingPrefetch := None\<rparr>;
          requestEndFrameExclusive = min (start + c) (int (length (frameToDecode a)));
          requested = [start..requestEndFrameExclusive - 1];
          framesToDeliver = filter (\<lambda>frame. js_get_int (frameToDecode a) frame \<noteq> None) requested;
          decodeIndicesForRequest = List.map_filter (js_get_int (frameToDecode a)) requested
      in if decodeIndicesForRequest = [] then
           (storeAsset w assetId
              (if pendingDiffers a start (Finite c)
               then a\<lparr>pendingPrefetch := Some (start, Finite c)\<rparr> else a),
            [SetTimeout (RetryFeedBatch assetId start (Finite c)) 16])
         else
           (let a1 = a\<lparr>currentFetchRange := Some (start, requestEndFrameExclusive - 1)\<rparr>;
                minDecodeIndex = minOfList decodeIndicesForRequest;
                maxDecodeIndex = maxOfList decodeIndicesForRequest;
                keyframeIndex = findKeyframeIndex ss minDecodeIndex;
                decodeEndExclusive = min (maxDecodeIndex + 1) (length ss);
                (a2, effs) = fold (submitSample (decoders w (decoder a)) ss framesToDeliver)
                               [keyframeIndex..<decodeEndExclusive] (a1, [])
            in (storeAsset w assetId a2, effs @ [SetTimeout (ClearFetchRange assetId) 100])))"

definition feedBatch :: "string \<Rightarrow> int \<Rightarrow> number \<Rightarrow> world \<Rightarrow> world \<times> effect list" where
  "feedBatch assetId start cnt w =
     (case lookupAsset w assetId of
        None \<Rightarrow> (w, [ConsoleWarn])
      | Some a \<Rightarrow>
          if overlapsCurrentFetch a start cnt then (w, [])
          else (case samples a of
                  None \<Rightarrow> (w, [ConsoleWarn])
                | Some ss \<Rightarrow>
                    if frameToDecode a = [] then (w, [ConsoleWarn])
                    else if \<not> hasFramesForRange a start cnt then
                      (if pendingDiffers a start cnt
                       then (storeAsset w assetId (a\<lparr>pendingPrefetch := Some (start, cnt)\<rparr>),
                             [Mp4boxFlush, SetTimeout (RetryFeedBatch assetId start cnt) 16])
                       else (w, [SetTimeout (RetryFeedBatch assetId start cnt) 16]))
                    else (case cnt of
                            Finite c \<Rightarrow> feedBatchSubmit assetId start c a ss w
                          | _ \<Rightarrow> (w, []))))"

section \<open>Decode queue and frame matcher\<close>

text \<open>
  The first block of the matcher: the bucket of the output's timestamp. Queue entries
  carry distinct \<open>q_uid\<close>s, so removing the first equal entry is removing the object
  that \<^verbatim>\<open>indexOf\<close> finds.
\<close>

definition matchByTimestamp :: "asset \<Rightarrow> int \<Rightarrow> queueEntry option \<times> asset" where
  "matchByTimestamp a ts =
     (case decodeQueueByTimestamp a ts of
        None \<Rightarrow> (None, a)
      | Some [] \<Rightarrow> (None, a)
      | Some (e # rest) \<Rightarrow>
          (Some e,
           a\<lparr>decodeQueueByTimestamp :=
                (if rest = [] then (decodeQueueByTimestamp a)(ts := None)
                 else (decodeQueueByTimestamp a)(ts \<mapsto> rest)),
             decodeQueue := remove1 e (decodeQueue a)\<rparr>))"

text \<open>The second block: the head of the flat queue, taken out of its bucket as well.\<close>

definition matchByQueueHead :: "asset \<Rightarrow> queueEntry option \<times> asset" where
  "matchByQueueHead a =
     (case decodeQueue a of
        [] \<Rightarrow> (None, a)
      | e # rest \<Rightarrow>
          (Some e,
           a\<lparr>decodeQueue := rest,
             decodeQueueByTimestamp :=
               (case decodeQueueByTimestamp a (q_timestamp e) of
                  None \<Rightarrow> decodeQueueByTimestamp a
                | Some entries \<Rightarrow>
                    (if remove1 e entries = []
                     then (decodeQueueByTimestamp a)(q_timestamp e := None)
                     else (decodeQueueByTimestamp a)(q_timestamp e \<mapsto> remove1 e entries)))\<rparr>))"

definition matchQueueEntry :: "asset \<Rightarrow> int \<Rightarrow> queueEntry option \<times> asset" where
  "matchQueueEntry a ts =
     (case matchByTimestamp a ts of
        (Some e, a') \<Rightarrow> (Some e, a')
      | (None, a') \<Rightarrow> matchByQueueHead a')"

section \<open>Frame delivery\<close>

text \<open>
  A decoded frame, with what the platform will answer for it: \<open>vf_allocationSize = None\<close>
  when \<^verbatim>\<open>allocationSize\<close> throws, \<open>vf_copyToFails\<close> when \<^verbatim>\<open>copyTo\<close> rejects,
  \<open>vf_canvasDrawFails\<close> when no 2D context is obtained or drawing or reading back throws.
  A dimension of 0 is the falsy value of the \<^verbatim>\<open>||\<close> chains.
\<close>

record videoFrame =
  vf_timestamp :: int
  vf_displayWidth :: nat
  vf_displayHeight :: nat
  vf_codedWidth :: nat
  vf_codedHeight :: nat
  vf_visibleRect :: "(int \<times> int \<times> nat \<times> nat) option"
  vf_allocationSize :: "nat option"
  vf_copyToFails :: bool
  vf_canvasDrawFails :: bool

text \<open>The variables of one \<^verbatim>\<open>loadWebCodecVideoAsset\<close> call that its callbacks close over.\<close>

record loadClosure =
  lc_frameIndex :: nat
  lc_resolved :: bool
  lc_codedWidth :: nat
  lc_codedHeight :: nat
  lc_trackId :: nat
  lc_timescale :: int
  lc_initialPrefillFrames :: nat
  lc_samples :: "sample list"

definition orElse :: "nat \<Rightarrow> nat \<Rightarrow> nat" where
  "orElse a b = (if a \<noteq> 0 then a else b)"

definition ensureCanvasForAsset :: "world \<Rightarrow> asset \<Rightarrow> nat \<Rightarrow> nat \<Rightarrow> asset" where
  "ensureCanvasForAsset w a wd ht =
     (let needsCanvas = (canvas a = None);
          needsResize = (\<not> needsCanvas \<and> canvas a \<noteq> Some (wd, ht));
          a1 = (if needsCanvas then
                  (if offscreenCanvasAvailable w then a\<lparr>canvas := Some (wd, ht)\<rparr>
                   else if documentAvailable w
                        then a\<lparr>canvas := Some (wd, ht), canvasCleanup := True\<rparr>
                   else a)
                else a)
      in if canvas a1 \<noteq> None \<and> (needsCanvas \<or> needsResize)
         then a1\<lparr>canvas := Some (wd, ht)\<rparr> else a1)"

text \<open>\<open>copyFrameViaCanvas\<close>: \<open>Inl\<close> is a throw; the asset may have gained a canvas.\<close>

definition copyFrameViaCanvas :: "world \<Rightarrow> videoFrame \<Rightarrow> nat \<Rightarrow> nat \<Rightarrow> asset \<Rightarrow> asset + asset" where
  "copyFrameViaCanvas w frame wd ht a =
     (let a' = ensureCanvasForAsset w a wd ht
      in if canvas a' = None then Inl a'
         else if vf_canvasDrawFails frame then Inl a'
         else Inr a')"

text \<open>The copy strategy: the new asset, whether the copy succeeded, and the calls made.\<close>

definition copyFrame :: "world \<Rightarrow> videoFrame \<Rightarrow> nat \<Rightarrow> nat \<Rightarrow> asset \<Rightarrow> asset \<times> bool \<times> effect list" where
  "copyFrame w frame wd ht a =
     (if copyMethod a = Some Canvas then
        (case copyFrameViaCanvas w frame wd ht a of
           Inr a' \<Rightarrow> (a', True, [CanvasCopy])
         | Inl a' \<Rightarrow> (a', False, [CanvasCopy, ConsoleError]))
      else if \<not> vf_copyToFails frame then
        ((if copyMethod a = None then a\<lparr>copyMethod := Some Direct\<rparr> else a), True, [FrameCopyTo])
      else
        (let a1 = (if copyMethod a = None then a\<lparr>copyMethod := Some Canvas\<rparr> else a);
             warn = (if copyMethod a = None then [ConsoleWarn] else [])
         in case copyFrameViaCanvas w frame wd ht a1 of
              Inr a' \<Rightarrow> (a', True, [FrameCopyTo] @ warn @ [CanvasCopy])
            | Inl a' \<Rightarrow> (a', False, [FrameCopyTo] @ warn @ [CanvasCopy, ConsoleError])))"

text \<open>
  The handler from the geometry on, for an output that is to be delivered as frame
  \<open>targetFrameIndex\<close>, in its four stages: the frame's size, the byte size of the copy,
  the buffer, and what follows the copy (delivery or the release of the buffer, then
  \<^verbatim>\<open>frame.close()\<close> and the warm-up count). The clamped copy rectangle only travels to
  \<^verbatim>\<open>copyTo\<close> and \<^verbatim>\<open>drawImage\<close>; their answers are fields of the frame. The handler
  runs to its end without another callback in between.
\<close>

definition frameSize :: "loadClosure \<Rightarrow> videoFrame \<Rightarrow> nat \<times> nat" where
  "frameSize lc frame =
     (let defaultWidth = orElse (vf_displayWidth frame) (orElse (vf_codedWidth frame) (lc_codedWidth lc));
          defaultHeight = orElse (vf_displayHeight frame) (orElse (vf_codedHeight frame) (lc_codedHeight lc));
          visibleRect = (case vf_visibleRect frame of
                           Some r \<Rightarrow> r | None \<Rightarrow> (0, 0, defaultWidth, defaultHeight));
          frameWidth = max 1 (fst (snd (snd visibleRect)));
          frameHeight = max 1 (snd (snd (snd visibleRect)))
      in (frameWidth, frameHeight))"

definition requiredBytesFor :: "asset \<Rightarrow> videoFrame \<Rightarrow> nat \<Rightarrow> nat \<Rightarrow> nat \<times> asset" where
  "requiredBytesFor a frame frameWidth frameHeight =
     (let stride = frameWidth * 4
      in if useStrideSize a then (stride * frameHeight, a)
         else (case vf_allocationSize frame of
                 Some n \<Rightarrow> (n, a)
               | None \<Rightarrow> (stride * frameHeight, a\<lparr>useStrideSize := True\<rparr>)))"

definition ensureBuffer :: "nat \<Rightarrow> asset \<Rightarrow> world \<Rightarrow> asset \<times> world" where
  "ensureBuffer requiredBytes a w =
     (if ptr a = 0 \<or> frameBytes a < requiredBytes then
        (let w0 = (if ptr a \<noteq> 0 then free (ptr a) w else w);
             (p, w') = malloc requiredBytes w0
         in (a\<lparr>ptr := p, frameBytes := requiredBytes\<rparr>, w'))
      else (a, w))"

definition finishDelivery ::
  "string \<Rightarrow> nat \<Rightarrow> nat \<Rightarrow> nat \<Rightarrow> nat \<Rightarrow> asset \<Rightarrow> bool \<Rightarrow> world \<Rightarrow> world \<times> effect list" where
  "finishDelivery assetId targetFrameIndex frameWidth frameHeight requiredBytes a copySucceeded w =
     (if copySucceeded then
        (let a1 = a\<lparr>width := frameWidth, height := frameHeight, frameBytes := requiredBytes\<rparr>;
             a2 = (if isInitialPrefill a1
                   then a1\<lparr>currentPrefillIndex := Suc (currentPrefillIndex a1)\<rparr> else a1)
         in (storeAsset w assetId a2,
             [OnPrefetchFrame assetId targetFrameIndex (ptr a1) frameWidth frameHeight]
               @ (if hasSurface w \<and> \<not> playing w then [Render] else [])
               @ [FrameClose]))
      else
        (let (a1, w1) = (if ptr a \<noteq> 0
                         then (a\<lparr>ptr := 0, frameBytes := 0\<rparr>, free (ptr a) w)
                         else (a, w))
         in (storeAsset w1 assetId a1, [ConsoleError, FrameClose])))"

definition deliverFrame ::
  "string \<Rightarrow> videoFrame \<Rightarrow> nat \<Rightarrow> loadClosure \<Rightarrow> asset \<Rightarrow> world \<Rightarrow> world \<times> effect list" where
  "deliverFrame assetId frame targetFrameIndex lc a w =
     (let (frameWidth, frameHeight) = frameSize lc frame;
          (requiredBytes, a1) = requiredBytesFor a frame frameWidth frameHeight;
          (a2, w1) = ensureBuffer requiredBytes a1 w;
          (a3, copySucceeded, copyEffs) = copyFrame w1 frame frameWidth frameHeight a2;
          (w2, effs) = finishDelivery assetId targetFrameIndex frameWidth frameHeight
                         requiredBytes a3 copySucceeded w1
      in (w2, copyEffs @ effs))"

text \<open>
  The decoder's output callback. Queue entries are always objects, so the branch for a
  queue entry that is a bare number has no counterpart here.
\<close>

definition decoderOutput ::
  "string \<Rightarrow> videoFrame \<Rightarrow> loadClosure \<times> world \<Rightarrow> (loadClosure \<times> world) \<times> effect list" where
  "decoderOutput assetId frame st =
     (case st of (lc, w) \<Rightarrow>
        (case lookupAsset w assetId of
           None \<Rightarrow> ((lc, w), [FrameClose])
         | Some a0 \<Rightarrow>
             (case matchQueueEntry a0 (vf_timestamp frame) of
                (Some queueEntry, a) \<Rightarrow>
                  (let targetFrameIndex = (case q_frameIndex queueEntry of
                                             Some f \<Rightarrow> f | None \<Rightarrow> q_sampleIndex queueEntry);
                       lc' = lc\<lparr>lc_frameIndex := max (lc_frameIndex lc) (targetFrameIndex + 1)\<rparr>
                   in if \<not> q_deliver queueEntry
                      then ((lc', storeAsset w assetId a), [FrameClose])
                      else if isInitialPrefill a \<and> initialPrefillFrames a \<le> currentPrefillIndex a
                      then ((lc', storeAsset w assetId a), [FrameClose])
                      else (case deliverFrame assetId frame targetFrameIndex lc' a w of
                              (w', effs) \<Rightarrow> ((lc', w'), effs)))
              | (None, a) \<Rightarrow>
                  (let targetFrameIndex = lc_frameIndex lc;
                       lc' = lc\<lparr>lc_frameIndex := Suc (lc_frameIndex lc)\<rparr>
                   in if isInitialPrefill a \<and> initialPrefillFrames a \<le> currentPrefillIndex a
                      then ((lc', storeAsset w assetId a), [ConsoleWarn, FrameClose])
                      else (case deliverFrame assetId frame targetFrameIndex lc' a w of
                              (w', effs) \<Rightarrow> ((lc', w'), ConsoleWarn # effs))))))"

section \<open>Disposal\<close>

text \<open>\<^verbatim>\<open>decoder.close()\<close> throws on a decoder that is already closed.\<close>

definition decoderClose :: "nat \<Rightarrow> world \<Rightarrow> unit + world" where
  "decoderClose h w =
     (if decoders w h = Closed then Inl ()
      else Inr (w\<lparr>decoders := (decoders w)(h := Closed)\<rparr>))"

definition disposeVideoAsset :: "string \<Rightarrow> world \<Rightarrow> world \<times> effect list" where
  "disposeVideoAsset videoAssetId w =
     (case videoAssets w of
        None \<Rightarrow> (w, [])
      | Some assets \<Rightarrow>
          (case assets videoAssetId of
             None \<Rightarrow> (w, [])
           | Some a \<Rightarrow>
               (let (w1, e1) =
                      (if decoders w (decoder a) \<noteq> Closed then
                         (case decoderClose (decoder a) w of
                            Inr w' \<Rightarrow> (w', [DecoderClose (decoder a)])
                          | Inl _ \<Rightarrow> (w, [DecoderClose (decoder a), ConsoleWarn]))
                       else (w, []));
                    w2 = (if ptr a \<noteq> 0 then free (ptr a) w1 else w1);
                    e2 = (if canvasCleanup a then [RemoveCanvas] else [])
                in (w2\<lparr>videoAssets := Some (assets(videoAssetId := None)), videoReady := False\<rparr>,
                    e1 @ e2))))"

section \<open>Loading\<close>

datatype frameRate = RateAbsent | RateFraction int int | RateNumber rat

text \<open>A track as \<^verbatim>\<open>info.tracks\<close> lists it; \<open>tr_configureThrows\<close> is the platform's answer
  to \<^verbatim>\<open>decoder.configure\<close> for this track's configuration: the message of the exception
  that it throws, or \<open>None\<close> when it returns.\<close>

record track =
  tr_type :: string
  tr_id :: nat
  tr_width :: nat
  tr_height :: nat
  tr_avg_frame_rate :: frameRate
  tr_timescale :: int
  tr_nb_samples :: nat
  tr_duration :: int
  tr_configureThrows :: "string option"


definition trackFps :: "track \<Rightarrow> rat" where
  "trackFps vt =
     (case tr_avg_frame_rate vt of
        RateAbsent \<Rightarrow> 30
      | RateFraction num den \<Rightarrow> of_int num / of_int den
      | RateNumber r \<Rightarrow> (if r \<noteq> 0 then r else 30))"

definition newAsset :: "nat \<Rightarrow> nat \<Rightarrow> track \<Rightarrow> asset" where
  "newAsset p h vt =
     (let fpsv = trackFps vt;
          frameBytesv = tr_width vt * tr_height vt * 4;
          maxFrames = (if frameBytesv = 0 then 10 else (96 * 1024 * 1024) div frameBytesv)
      in \<lparr>ptr = p, decoder = h, width = tr_width vt, height = tr_height vt,
          timescale = tr_timescale vt, fps = fpsv,
          totalFrames = (if tr_nb_samples vt \<noteq> 0 then int (tr_nb_samples vt)
                         else \<lfloor>(of_int (tr_duration vt) / of_int (tr_timescale vt)) * fpsv\<rfloor>),
          initialPrefillFrames = min 10 maxFrames,
          isInitialPrefill = True, currentPrefillIndex = 0, frameBytes = frameBytesv,
          canvas = None, canvasCleanup = False, pendingPrefetch = None,
          prefillRequested = False, decodeQueue = [], decodeQueueByTimestamp = Map.empty,
          frameToDecode = [], decodeToFrame = [], frameTimestamps = [],
          samples = None, currentFetchRange = None, useStrideSize = False,
          copyMethod = None, nextUid = 0\<rparr>)"















section \<open>Example streams\<close>

definition exampleSample :: "int \<Rightarrow> bool \<Rightarrow> sample" where
  "exampleSample c k =
     \<lparr>cts = Some c, dts = Some c, is_sync = k, duration = Some 1000,
      compositionTimestamp = None, timestampMicros = None, frameIndex = None\<rparr>"

definition exampleTrack :: track where
  "exampleTrack =
     \<lparr>tr_type = ''video'', tr_id = 1, tr_width = 640, tr_height = 360,
      tr_avg_frame_rate = RateAbsent, tr_timescale = 30000, tr_nb_samples = 300,
      tr_duration = 300000, tr_configureThrows = None\<rparr>"

definition exampleWorld :: world where
  "exampleWorld =
     \<lparr>videoAssets = None, decoders = (\<lambda>_. Closed), nextDecoder = 1, heap = {}, nextAddr = 4096,
      hasSurface = True, playing = False, videoReady = False,
      offscreenCanvasAvailable = True, documentAvailable = True, preparation = Pending\<rparr>"

definition exampleClosure :: loadClosure where
  "exampleClosure =
     \<lparr>lc_frameIndex = 0, lc_resolved = False, lc_codedWidth = 0, lc_codedHeight = 0,
      lc_trackId = 0, lc_timescale = 0, lc_initialPrefillFrames = 0, lc_samples = []\<rparr>"

text \<open>The asset that \<open>onReady\<close> registers for \<open>exampleTrack\<close>, once the sample list \<open>ss\<close>
  has arrived and the timeline is built.\<close>

definition assetWithSamples :: "sample list \<Rightarrow> asset" where
  "assetWithSamples ss = updatePresentationTimeline ((newAsset 4096 1 exampleTrack)\<lparr>samples := Some ss\<rparr>)"

text \<open>Four samples in decode order I P B B, presented in the order 0, 2, 3, 1.\<close>

definition reorderedSamples :: "sample list" where
  "reorderedSamples =
     [exampleSample 0 True, exampleSample 3000 False, exampleSample 1000 False,
      exampleSample 2000 False]"


definition worldWith :: "asset \<Rightarrow> world" where
  "worldWith a =
     exampleWorld\<lparr>videoAssets := Some [''asset#2'' \<mapsto> a], decoders := (\<lambda>_. Closed)(1 := Configured),
                  nextDecoder := 2, heap := {4096}, nextAddr := 925696\<rparr>"

subsection \<open>More example data\<close>

text \<open>A stream without any keyframe flag.\<close>

definition noKeyframeSamples :: "sample list" where
  "noKeyframeSamples =
     [exampleSample 0 False, exampleSample 1000 False, exampleSample 2000 False]"

text \<open>Two samples that share a composition time.\<close>

definition dupSamples :: "sample list" where
  "dupSamples = [exampleSample 0 True, exampleSample 1000 False, exampleSample 1000 False]"


text \<open>A decoded 640 by 360 frame with the given timestamp, whose \<^verbatim>\<open>copyTo\<close> succeeds or throws.\<close>

definition exampleFrame :: "int \<Rightarrow> bool \<Rightarrow> videoFrame" where
  "exampleFrame ts copyFails =
     \<lparr>vf_timestamp = ts, vf_displayWidth = 640, vf_displayHeight = 360, vf_codedWidth = 640,
      vf_codedHeight = 368, vf_visibleRect = Some (0, 0, 640, 360), vf_allocationSize = Some 921600,
      vf_copyToFails = copyFails, vf_canvasDrawFails = False\<rparr>"


text \<open>The asset after the three samples of \<open>dupSamples\<close> have been submitted.\<close>

definition dupQueued :: asset where
  "dupQueued =
     the (lookupAsset (fst (feedBatch ''asset#2'' 0 (Finite 3) (worldWith (assetWithSamples dupSamples))))
            ''asset#2'')"

text \<open>The world in which \<open>dupQueued\<close> is registered.\<close>

definition dupWorld :: world where
  "dupWorld = fst (feedBatch ''asset#2'' 0 (Finite 3) (worldWith (assetWithSamples dupSamples)))"

text \<open>The closure and the world after a first output whose direct copy succeeded.\<close>

definition afterDirectCopy :: "loadClosure \<times> world" where
  "afterDirectCopy =
     fst (decoderOutput ''asset#2'' (exampleFrame 0 False)
            (exampleClosure, worldWith (assetWithSamples reorderedSamples)))"




section \<open>Observations on states and effects\<close>

text \<open>The calls of \<^verbatim>\<open>decoder.decode\<close> among the effects, and the samples they carry.\<close>

fun isDecode :: "effect \<Rightarrow> bool" where
  "isDecode (DecoderDecode _ _) = True"
| "isDecode _ = False"

fun decodedSample :: "effect \<Rightarrow> nat option" where
  "decodedSample (DecoderDecode _ c) = Some (chunk_data c)"
| "decodedSample _ = None"

text \<open>The calls of \<^verbatim>\<open>frame.close()\<close> among the effects, and the frame index of a delivery.\<close>

definition closeCount :: "effect list \<Rightarrow> nat" where
  "closeCount effs = length (filter (\<lambda>e. e = FrameClose) effs)"

definition deliveredIndex :: "effect \<Rightarrow> nat option" where
  "deliveredIndex e = (case e of OnPrefetchFrame _ f _ _ _ \<Rightarrow> Some f | _ \<Rightarrow> None)"

text \<open>Fields of the asset registered under an identifier: its in-flight fetch range, its pending request, its cached copy method, and its samples.\<close>

definition fetchRangeOf :: "world \<Rightarrow> string \<Rightarrow> (int \<times> int) option option" where
  "fetchRangeOf w assetId = map_option currentFetchRange (lookupAsset w assetId)"

definition pendingOf :: "world \<Rightarrow> string \<Rightarrow> (int \<times> number) option option" where
  "pendingOf w assetId = map_option pendingPrefetch (lookupAsset w assetId)"

definition methodOf :: "world \<Rightarrow> string \<Rightarrow> copyMethod option option" where
  "methodOf w assetId = map_option copyMethod (lookupAsset w assetId)"

definition samplesOf :: "asset \<Rightarrow> sample list" where
  "samplesOf a = (case samples a of None \<Rightarrow> [] | Some ss \<Rightarrow> ss)"

text \<open>A run of decoder outputs, one after the other, with the effects of all of them.\<close>

fun runOutputs ::
  "string \<Rightarrow> videoFrame list \<Rightarrow> loadClosure \<times> world \<Rightarrow> (loadClosure \<times> world) \<times> effect list" where
  "runOutputs assetId [] st = (st, [])"
| "runOutputs assetId (f # fs) st =
     (case decoderOutput assetId f st of
        (st', effs) \<Rightarrow> (case runOutputs assetId fs st' of (st'', rest) \<Rightarrow> (st'', effs @ rest)))"

section \<open>Notions for the proofs\<close>

text \<open>The sorted timeline inside \<open>buildTimeline\<close>, and the timestamp it sorts sample \<open>i\<close> by.\<close>

definition sortedEntries :: "int \<Rightarrow> rat \<Rightarrow> sample list \<Rightarrow> timelineEntry list" where
  "sortedEntries tscale fpsv ss =
     sortTimeline (map snd (map (timelineMapStep tscale fpsv) (enumerate 0 ss)))"


text \<open>A sample without the three fields that the timeline builder stamps.\<close>

definition unstamped :: "sample \<Rightarrow> sample" where
  "unstamped s = s\<lparr>compositionTimestamp := None, timestampMicros := None, frameIndex := None\<rparr>"

text \<open>The values that \<open>feedBatchSubmit\<close> binds on its way: the decode indices of the requested frames, their minimum and maximum, and the keyframe index.\<close>

definition requestedDecodeIndices :: "asset \<Rightarrow> int \<Rightarrow> int \<Rightarrow> nat list" where
  "requestedDecodeIndices a start c =
     List.map_filter (js_get_int (frameToDecode a)) [start..start + c - 1]"

definition minDecodeIndexOf :: "asset \<Rightarrow> int \<Rightarrow> int \<Rightarrow> nat" where
  "minDecodeIndexOf a start c = minOfList (requestedDecodeIndices a start c)"

definition maxDecodeIndexOf :: "asset \<Rightarrow> int \<Rightarrow> int \<Rightarrow> nat" where
  "maxDecodeIndexOf a start c = maxOfList (requestedDecodeIndices a start c)"

definition keyframeIndexOf :: "asset \<Rightarrow> sample list \<Rightarrow> int \<Rightarrow> int \<Rightarrow> nat" where
  "keyframeIndexOf a ss start c = findKeyframeIndex ss (minDecodeIndexOf a start c)"

text \<open>The queue entry and the effects of the \<open>k\<close>-th turn of the submission loop, which is at sample \<open>index\<close>; the fields of the asset that the loop leaves alone; membership of a frame index in the request.\<close>

definition entryAt :: "asset \<Rightarrow> sample list \<Rightarrow> int list \<Rightarrow> nat \<Rightarrow> nat \<Rightarrow> queueEntry" where
  "entryAt a ss ftd k index = (makeQueueEntry a ss ftd index)\<lparr>q_uid := nextUid a + k\<rparr>"

definition decodeCall :: "decoderState \<Rightarrow> asset \<Rightarrow> sample list \<Rightarrow> int list \<Rightarrow> nat \<Rightarrow> effect list" where
  "decodeCall ds a ss ftd index =
     DecoderDecode (decoder a) (makeChunk a ss index (q_timestamp (makeQueueEntry a ss ftd index)))
       # (if ds = Configured then [] else [ConsoleError])"

definition loopInvariant :: "asset \<Rightarrow> asset \<Rightarrow> bool" where
  "loopInvariant a a' \<longleftrightarrow>
     decodeToFrame a' = decodeToFrame a \<and> frameToDecode a' = frameToDecode a \<and>
     timescale a' = timescale a \<and> fps a' = fps a \<and> decoder a' = decoder a \<and>
     samples a' = samples a \<and> currentFetchRange a' = currentFetchRange a \<and>
     pendingPrefetch a' = pendingPrefetch a \<and> copyMethod a' = copyMethod a"

definition inRequest :: "int \<Rightarrow> int \<Rightarrow> nat option \<Rightarrow> bool" where
  "inRequest start c fi = (case fi of None \<Rightarrow> False | Some f \<Rightarrow> start \<le> int f \<and> int f < start + c)"

text \<open>The copy method that stands cached after a copy.\<close>

definition decidedMethod :: "copyMethod option \<Rightarrow> videoFrame \<Rightarrow> copyMethod option" where
  "decidedMethod m frame =
     (case m of Some c \<Rightarrow> Some c
      | None \<Rightarrow> Some (if vf_copyToFails frame then Canvas else Direct))"

text \<open>What the delivery stages leave of the queue and of the warm-up state.\<close>

definition waiting :: "asset \<Rightarrow> asset \<Rightarrow> bool" where
  "waiting a a' \<longleftrightarrow>
     decodeQueue a' = decodeQueue a \<and> decodeQueueByTimestamp a' = decodeQueueByTimestamp a \<and>
     isInitialPrefill a' = isInitialPrefill a \<and> initialPrefillFrames a' = initialPrefillFrames a \<and>
     currentPrefillIndex a' \<le> Suc (currentPrefillIndex a)"

text \<open>The bucket that a flat queue determines for a timestamp, and the assets whose buckets are those of their queue.\<close>

definition bucketOf :: "queueEntry list \<Rightarrow> int \<Rightarrow> queueEntry list option" where
  "bucketOf q ts =
     (if filter (\<lambda>e. q_timestamp e = ts) q = [] then None
      else Some (filter (\<lambda>e. q_timestamp e = ts) q))"

definition bucketsMatchQueue :: "asset \<Rightarrow> bool" where
  "bucketsMatchQueue a \<longleftrightarrow> decodeQueueByTimestamp a = bucketOf (decodeQueue a)"

text \<open>The frame index that the output handler takes from a matched queue entry, and the
  state of the warm-up in which it drops the frame.\<close>

definition targetOf :: "queueEntry \<Rightarrow> nat" where
  "targetOf e = (case q_frameIndex e of Some f \<Rightarrow> f | None \<Rightarrow> q_sampleIndex e)"

definition warmUpFull :: "asset \<Rightarrow> bool" where
  "warmUpFull a \<longleftrightarrow> isInitialPrefill a \<and> initialPrefillFrames a \<le> currentPrefillIndex a"

text \<open>The fields that decide the delivery of an output, which the batch feeder leaves alone.\<close>

definition sameDelivery :: "asset \<Rightarrow> asset \<Rightarrow> bool" where
  "sameDelivery a a' \<longleftrightarrow>
     copyMethod a' = copyMethod a \<and> isInitialPrefill a' = isInitialPrefill a \<and>
     initialPrefillFrames a' = initialPrefillFrames a \<and>
     currentPrefillIndex a' = currentPrefillIndex a \<and> prefillRequested a' = prefillRequested a"

section \<open>Arrays with holes\<close>

lemma length_js_set: "length (js_set xs i v) = max (length xs) (Suc i)"
  by (auto simp: js_set_def)

lemma js_get_js_set: "js_get (js_set xs i v) j = (if j = i then Some v else js_get xs j)"
  by (auto simp: js_get_def js_set_def nth_append nth_Cons')

lemma js_set_at_end: "js_set xs (length xs) v = xs @ [Some v]"
  by (simp add: js_set_def)

section \<open>The timeline is a bijection\<close>

lemma mset_insertEntry: "mset (insertEntry e xs) = add_mset e (mset xs)"
  by (induction xs) auto

lemma mset_sortTimeline: "mset (sortTimeline es) = mset es"
  by (induction es) (auto simp: mset_insertEntry)

lemma mapped_decodeIndex_from:
  "map (\<lambda>p. t_decodeIndex (snd (timelineMapStep tscale fpsv p))) (enumerate n ss) = [n..<n + length ss]"
  by (induction ss arbitrary: n) (auto simp: timelineMapStep_def Let_def upt_rec)

lemma mapped_decodeIndex:
  "map t_decodeIndex (map snd (map (timelineMapStep tscale fpsv) (enumerate 0 ss))) = [0..<length ss]"
  using mapped_decodeIndex_from[of tscale fpsv 0 ss] by (simp add: comp_def)

lemma sorted_decodeIndex_mset:
  "mset (map t_decodeIndex (sortTimeline (map snd (map (timelineMapStep tscale fpsv) (enumerate 0 ss))))) = mset [0..<length ss]"
proof -
  have "mset (map t_decodeIndex (sortTimeline (map snd (map (timelineMapStep tscale fpsv) (enumerate 0 ss)))))
      = mset (map t_decodeIndex (map snd (map (timelineMapStep tscale fpsv) (enumerate 0 ss))))"
    unfolding mset_map mset_sortTimeline ..
  then show ?thesis unfolding mapped_decodeIndex .
qed

lemma timeline_permutation:
  shows "length (sortedEntries tscale fpsv ss) = length ss"
    and "distinct (map t_decodeIndex (sortedEntries tscale fpsv ss))"
    and "set (map t_decodeIndex (sortedEntries tscale fpsv ss)) = {0..<length ss}"
proof -
  let ?es = "sortedEntries tscale fpsv ss"
  have m: "mset (map t_decodeIndex ?es) = mset [0..<length ss]"
    unfolding sortedEntries_def by (rule sorted_decodeIndex_mset)
  from m have "length (map t_decodeIndex ?es) = length [0..<length ss]"
    by (rule mset_eq_length)
  then show "length ?es = length ss" by simp
  from m have "distinct (map t_decodeIndex ?es) = distinct [0..<length ss]"
    by (rule mset_eq_imp_distinct_iff)
  then show "distinct (map t_decodeIndex ?es)" by simp
  from m have "set (map t_decodeIndex ?es) = set [0..<length ss]"
    by (rule mset_eq_setD)
  then show "set (map t_decodeIndex ?es) = {0..<length ss}" by simp
qed

text \<open>The tables after the forEach loop over a timeline whose decode indices are
  distinct and below n.\<close>

lemma forEach_tables:
  assumes "distinct (map t_decodeIndex es)" and "\<forall>e \<in> set es. t_decodeIndex e < n"
    and "tb_frameToDecode T0 = []" and "tb_decodeToFrame T0 = replicate n None"
  shows "tb_frameToDecode (fold timelineForEachStep (enumerate 0 es) T0) = map (\<lambda>e. Some (t_decodeIndex e)) es
       \<and> length (tb_decodeToFrame (fold timelineForEachStep (enumerate 0 es) T0)) = n
       \<and> (\<forall>f < length es. js_get (tb_decodeToFrame (fold timelineForEachStep (enumerate 0 es) T0)) (t_decodeIndex (es ! f)) = Some f)"
  using assms(1,2)
proof (induction es rule: rev_induct)
  case Nil
  show ?case using assms(3,4) by simp
next
  case (snoc e es)
  let ?T = "fold timelineForEachStep (enumerate 0 es) T0"
  let ?T' = "fold timelineForEachStep (enumerate 0 (es @ [e])) T0"
  have d: "distinct (map t_decodeIndex es)" and b: "\<forall>x \<in> set es. t_decodeIndex x < n"
    and new: "t_decodeIndex e \<notin> t_decodeIndex ` set es" and en: "t_decodeIndex e < n"
    using snoc.prems by auto
  from snoc.IH[OF d b] have
    f2d: "tb_frameToDecode ?T = map (\<lambda>e. Some (t_decodeIndex e)) es"
    and len: "length (tb_decodeToFrame ?T) = n"
    and d2f: "\<forall>f < length es. js_get (tb_decodeToFrame ?T) (t_decodeIndex (es ! f)) = Some f"
    by auto
  have step: "?T' = timelineForEachStep (length es, e) ?T"
    by (simp add: enumerate_append_eq)
  have f2d': "tb_frameToDecode ?T' = map (\<lambda>e. Some (t_decodeIndex e)) (es @ [e])"
    using js_set_at_end[of "tb_frameToDecode ?T" "t_decodeIndex e"] f2d
    by (simp add: step timelineForEachStep_def)
  have d2f_eq: "tb_decodeToFrame ?T' = js_set (tb_decodeToFrame ?T) (t_decodeIndex e) (length es)"
    by (simp add: step timelineForEachStep_def)
  have len': "length (tb_decodeToFrame ?T') = n"
    using len en by (simp add: d2f_eq length_js_set)
  have "js_get (tb_decodeToFrame ?T') (t_decodeIndex ((es @ [e]) ! f)) = Some f"
    if "f < length (es @ [e])" for f
  proof (cases "f < length es")
    case True
    then have "es ! f \<in> set es" by simp
    then have "t_decodeIndex (es ! f) \<noteq> t_decodeIndex e" using new by (metis image_eqI)
    then show ?thesis using True d2f by (simp add: d2f_eq js_get_js_set nth_append)
  next
    case False
    then have "f = length es" using that by simp
    then show ?thesis by (simp add: d2f_eq js_get_js_set)
  qed
  then show ?case using f2d' len' by blast
qed

lemma buildTimeline_tables:
  shows "tb_frameToDecode (buildTimeline tscale fpsv ss) = map (\<lambda>e. Some (t_decodeIndex e)) (sortedEntries tscale fpsv ss)"
    and "length (tb_decodeToFrame (buildTimeline tscale fpsv ss)) = length ss"
    and "\<forall>f < length ss. js_get (tb_decodeToFrame (buildTimeline tscale fpsv ss)) (t_decodeIndex (sortedEntries tscale fpsv ss ! f)) = Some f"
proof -
  let ?es = "sortedEntries tscale fpsv ss"
  let ?T = "buildTimeline tscale fpsv ss"
  have perm: "length ?es = length ss" "distinct (map t_decodeIndex ?es)"
    "set (map t_decodeIndex ?es) = {0..<length ss}"
    by (rule timeline_permutation)+
  have b: "\<forall>e \<in> set ?es. t_decodeIndex e < length ss"
    using perm(3) by auto
  have T: "?T = fold timelineForEachStep (enumerate 0 ?es)
      \<lparr>tb_samples = map fst (map (timelineMapStep tscale fpsv) (enumerate 0 ss)),
       tb_frameToDecode = [], tb_frameTimestamps = [],
       tb_decodeToFrame = replicate (length ss) None\<rparr>"
    unfolding buildTimeline_def Let_def sortedEntries_def[symmetric] perm(1) ..
  have all: "tb_frameToDecode ?T = map (\<lambda>e. Some (t_decodeIndex e)) ?es
       \<and> length (tb_decodeToFrame ?T) = length ss
       \<and> (\<forall>f < length ?es. js_get (tb_decodeToFrame ?T) (t_decodeIndex (?es ! f)) = Some f)"
    unfolding T by (rule forEach_tables[OF perm(2) b]) simp_all
  from all show "tb_frameToDecode ?T = map (\<lambda>e. Some (t_decodeIndex e)) ?es" by blast
  from all show "length (tb_decodeToFrame ?T) = length ss" by blast
  from all perm(1) show "\<forall>f < length ss. js_get (tb_decodeToFrame ?T) (t_decodeIndex (?es ! f)) = Some f" by simp
qed

lemma buildTimeline_bijection:
  shows "length (tb_frameToDecode (buildTimeline tscale fpsv ss)) = length ss"
    and "length (tb_decodeToFrame (buildTimeline tscale fpsv ss)) = length ss"
    and "\<forall>f < length ss. \<exists>d < length ss. js_get (tb_frameToDecode (buildTimeline tscale fpsv ss)) f = Some d \<and> js_get (tb_decodeToFrame (buildTimeline tscale fpsv ss)) d = Some f"
    and "\<forall>d < length ss. \<exists>f < length ss. js_get (tb_frameToDecode (buildTimeline tscale fpsv ss)) f = Some d"
    and "\<forall>f < length ss. \<forall>g < length ss. js_get (tb_frameToDecode (buildTimeline tscale fpsv ss)) f = js_get (tb_frameToDecode (buildTimeline tscale fpsv ss)) g \<longrightarrow> f = g"
proof -
  let ?es = "sortedEntries tscale fpsv ss"
  let ?T = "buildTimeline tscale fpsv ss"
  have perm: "length ?es = length ss" "distinct (map t_decodeIndex ?es)"
    "set (map t_decodeIndex ?es) = {0..<length ss}"
    by (rule timeline_permutation)+
  note tabs = buildTimeline_tables[where tscale=tscale and fpsv=fpsv and ss=ss]
  show l1: "length (tb_frameToDecode ?T) = length ss" using tabs(1) perm(1) by simp
  show "length (tb_decodeToFrame ?T) = length ss" by (rule tabs(2))
  have get: "js_get (tb_frameToDecode ?T) f = Some (t_decodeIndex (?es ! f))" if "f < length ss" for f
    using that perm(1) by (simp add: tabs(1) js_get_def)
  have bound: "t_decodeIndex (?es ! f) < length ss" if "f < length ss" for f
  proof -
    have "t_decodeIndex (?es ! f) \<in> set (map t_decodeIndex ?es)" using that perm(1) by simp
    then show ?thesis unfolding perm(3) by simp
  qed
  show "\<forall>f < length ss. \<exists>d < length ss. js_get (tb_frameToDecode ?T) f = Some d \<and> js_get (tb_decodeToFrame ?T) d = Some f"
    using get bound tabs(3) by blast
  show "\<forall>d < length ss. \<exists>f < length ss. js_get (tb_frameToDecode ?T) f = Some d"
  proof (intro allI impI)
    fix d assume "d < length ss"
    then have "d \<in> set (map t_decodeIndex ?es)" unfolding perm(3) by simp
    then obtain f where "f < length ?es" "t_decodeIndex (?es ! f) = d"
      by (auto simp: in_set_conv_nth)
    then show "\<exists>f < length ss. js_get (tb_frameToDecode ?T) f = Some d"
      using get perm(1) by auto
  qed
  show "\<forall>f < length ss. \<forall>g < length ss. js_get (tb_frameToDecode ?T) f = js_get (tb_frameToDecode ?T) g \<longrightarrow> f = g"
  proof (intro allI impI)
    fix f g assume fg: "f < length ss" "g < length ss"
      and eq: "js_get (tb_frameToDecode ?T) f = js_get (tb_frameToDecode ?T) g"
    then have "map t_decodeIndex ?es ! f = map t_decodeIndex ?es ! g"
      using get perm(1) by simp
    moreover have "f < length (map t_decodeIndex ?es)" "g < length (map t_decodeIndex ?es)"
      using fg perm(1) by simp_all
    ultimately show "f = g" using nth_eq_iff_index_eq[OF perm(2)] by blast
  qed
qed

text \<open>
  Claim C1. For every sample list \<open>ss\<close> that the timeline builder processes, the two
  tables have one slot per sample, \<open>decodeToFrame[frameToDecode[f]] = f\<close> for every
  presentation frame \<open>f\<close>, and every decode index below \<open>length ss\<close> is the entry of
  exactly one presentation frame.
\<close>

theorem timeline_bijection:
  "samples a = Some ss \<Longrightarrow> a' = updatePresentationTimeline a \<Longrightarrow>
   length (frameToDecode a') = length ss \<and> length (decodeToFrame a') = length ss \<and>
   (\<forall>f < length ss. \<exists>d < length ss.
        js_get (frameToDecode a') f = Some d \<and> js_get (decodeToFrame a') d = Some f) \<and>
   (\<forall>d < length ss. \<exists>!f. f < length ss \<and> js_get (frameToDecode a') f = Some d)"
proof (cases "ss = []")
  case True
  assume "samples a = Some ss" "a' = updatePresentationTimeline a"
  then show ?thesis using True by (simp add: updatePresentationTimeline_def)
next
  case False
  assume a: "samples a = Some ss" "a' = updatePresentationTimeline a"
  let ?T = "buildTimeline (timescale a) (fps a) ss"
  have f2d: "frameToDecode a' = tb_frameToDecode ?T" and d2f: "decodeToFrame a' = tb_decodeToFrame ?T"
    using a False by (simp_all add: updatePresentationTimeline_def Let_def)
  note B = buildTimeline_bijection[where tscale="timescale a" and fpsv="fps a" and ss=ss]
  have uniq: "\<exists>!f. f < length ss \<and> js_get (tb_frameToDecode ?T) f = Some d" if "d < length ss" for d
  proof -
    from B(4) that obtain f where f: "f < length ss" "js_get (tb_frameToDecode ?T) f = Some d" by blast
    show ?thesis
    proof (rule ex1I[of _ f])
      show "f < length ss \<and> js_get (tb_frameToDecode ?T) f = Some d" using f by simp
    next
      fix g assume "g < length ss \<and> js_get (tb_frameToDecode ?T) g = Some d"
      then show "g = f" using B(5) f by metis
    qed
  qed
  show ?thesis unfolding f2d d2f using B(1,2,3) uniq by blast
qed

lemma exampleTrack_rate: "timescale (newAsset p h exampleTrack) = 30000" "fps (newAsset p h exampleTrack) = 30"
  by (simp_all add: newAsset_def exampleTrack_def trackFps_def Let_def)

lemma assetWithSamples_tables:
  assumes "ss \<noteq> []"
  shows "frameToDecode (assetWithSamples ss) = tb_frameToDecode (buildTimeline 30000 30 ss)"
    and "decodeToFrame (assetWithSamples ss) = tb_decodeToFrame (buildTimeline 30000 30 ss)"
    and "samples (assetWithSamples ss) = Some (tb_samples (buildTimeline 30000 30 ss))"
  using assms by (simp_all add: assetWithSamples_def updatePresentationTimeline_def exampleTrack_rate Let_def)

lemma reordered_tables:
  "tb_frameToDecode (buildTimeline 30000 30 reorderedSamples) = [Some 0, Some 2, Some 3, Some 1]"
  "tb_decodeToFrame (buildTimeline 30000 30 reorderedSamples) = [Some 0, Some 3, Some 1, Some 2]"
  by code_simp+

theorem timeline_bijection_witness:
  "samples ((newAsset 4096 1 exampleTrack)\<lparr>samples := Some reorderedSamples\<rparr>) = Some reorderedSamples \<and>
   frameToDecode (assetWithSamples reorderedSamples) = [Some 0, Some 2, Some 3, Some 1] \<and>
   decodeToFrame (assetWithSamples reorderedSamples) = [Some 0, Some 3, Some 1, Some 2] \<and>
   length (frameToDecode (assetWithSamples reorderedSamples)) = length reorderedSamples \<and>
   (\<exists>d < 4. js_get (frameToDecode (assetWithSamples reorderedSamples)) 1 = Some d
        \<and> js_get (decodeToFrame (assetWithSamples reorderedSamples)) d = Some 1) \<and>
   (\<exists>!f. f < 4 \<and> js_get (frameToDecode (assetWithSamples reorderedSamples)) f = Some 3)"
proof -
  have h: "samples ((newAsset 4096 1 exampleTrack)\<lparr>samples := Some reorderedSamples\<rparr>) = Some reorderedSamples"
    by simp
  have l: "length reorderedSamples = 4" and ne: "reorderedSamples \<noteq> []"
    by (simp_all add: reorderedSamples_def)
  note v = assetWithSamples_tables(1,2)[OF ne, unfolded reordered_tables]
  note t = timeline_bijection[OF h assetWithSamples_def[of reorderedSamples]]
  have "\<exists>d < 4. js_get (frameToDecode (assetWithSamples reorderedSamples)) 1 = Some d
        \<and> js_get (decodeToFrame (assetWithSamples reorderedSamples)) d = Some 1"
    using t l by simp
  moreover have "\<exists>!f. f < 4 \<and> js_get (frameToDecode (assetWithSamples reorderedSamples)) f = Some 3"
    using t l by simp
  ultimately show ?thesis using h v t by blast
qed

section \<open>The count test of the readiness query\<close>

lemma lookup_store: "lookupAsset (storeAsset w i a) j = (if j = i then Some a else lookupAsset w j)"
  by (simp add: lookupAsset_def storeAsset_def split: option.splits)

lemma hasFrames_false: "\<not> isFinite cnt \<or> leqZero cnt \<Longrightarrow> \<not> hasFramesForRange a start cnt"
  by (simp add: hasFramesForRange_def)

text \<open>
  Claim C10. \<open>hasFramesForRange\<close> is false whenever \<open>count\<close> is not finite or is at most
  zero, whatever the asset and \<open>start\<close>; a \<open>feedBatch\<close> call with such a count makes no
  \<^verbatim>\<open>decoder.decode\<close> call and leaves the in-flight fetch range of every asset as it was.
\<close>

theorem nonpositive_count_gated:
  assumes "\<not> isFinite cnt \<or> leqZero cnt"
  shows "\<not> hasFramesForRange a start cnt \<and>
         list_all (\<lambda>e. \<not> isDecode e) (snd (feedBatch assetId start cnt w)) \<and>
         fetchRangeOf (fst (feedBatch assetId start cnt w)) other = fetchRangeOf w other"
proof -
  have nf: "\<not> hasFramesForRange b start cnt" for b
    using assms by (simp add: hasFramesForRange_def)
  show ?thesis
    using nf
    by (auto simp: feedBatch_def fetchRangeOf_def lookup_store split: option.splits)
qed

theorem nonpositive_count_gated_witness:
  "leqZero (Finite 0) \<and>
   \<not> hasFramesForRange (assetWithSamples reorderedSamples) 0 (Finite 0) \<and>
   list_all (\<lambda>e. \<not> isDecode e)
     (snd (feedBatch ''asset#2'' 0 (Finite 0) (worldWith (assetWithSamples reorderedSamples)))) \<and>
   fetchRangeOf (fst (feedBatch ''asset#2'' 0 (Finite 0) (worldWith (assetWithSamples reorderedSamples)))) ''asset#2''
     = fetchRangeOf (worldWith (assetWithSamples reorderedSamples)) ''asset#2''"
  using nonpositive_count_gated[of "Finite 0" "assetWithSamples reorderedSamples" 0 "''asset#2''"
      "worldWith (assetWithSamples reorderedSamples)" "''asset#2''"]
  by simp

section \<open>The backward scan for a keyframe\<close>

lemma scan_le: "scanKeyframe ss m = Some k \<Longrightarrow> k \<le> m \<and> syncAt ss k"
  by (induction m) (auto split: if_splits)

lemma scan_none: "scanKeyframe ss m = None \<Longrightarrow> i \<le> m \<Longrightarrow> \<not> syncAt ss i"
  by (induction m) (auto split: if_splits simp: le_Suc_eq)

lemma scan_nearest: "scanKeyframe ss m = Some k \<Longrightarrow> k < i \<Longrightarrow> i \<le> m \<Longrightarrow> \<not> syncAt ss i"
  by (induction m) (auto split: if_splits simp: le_Suc_eq)

text \<open>
  Claim C2 (amended). The index that the backward scan of \<open>feedBatch\<close> settles on, started
  at \<open>minDecodeIndex = m\<close>, is at or before \<open>m\<close>; no sample after it up to \<open>m\<close> has the
  keyframe flag; and the sample at that index is a true keyframe or else no sample at or
  before \<open>m\<close> is a keyframe and the index is \<open>m\<close> itself. When the stream's first sample is
  a keyframe the index is always a true keyframe.
\<close>

theorem keyframe_scan_result:
  "findKeyframeIndex ss m \<le> m \<and>
   (\<forall>i. findKeyframeIndex ss m < i \<and> i \<le> m \<longrightarrow> \<not> syncAt ss i) \<and>
   (syncAt ss (findKeyframeIndex ss m) \<or>
    (findKeyframeIndex ss m = m \<and> (\<forall>i \<le> m. \<not> syncAt ss i))) \<and>
   (syncAt ss 0 \<longrightarrow> syncAt ss (findKeyframeIndex ss m))"
proof (cases "scanKeyframe ss m")
  case None
  then have "\<forall>i \<le> m. \<not> syncAt ss i" using scan_none by blast
  then show ?thesis using None by (auto simp: findKeyframeIndex_def)
next
  case (Some k)
  then show ?thesis using scan_le[OF Some] scan_nearest[OF Some]
    by (auto simp: findKeyframeIndex_def)
qed

theorem keyframe_scan_result_witness:
  "syncAt reorderedSamples 0 \<and> findKeyframeIndex reorderedSamples 3 \<le> 3 \<and>
   syncAt reorderedSamples (findKeyframeIndex reorderedSamples 3)"
proof -
  have s: "syncAt reorderedSamples 0" by code_simp
  from keyframe_scan_result[of reorderedSamples 3] s show ?thesis by blast
qed

section \<open>The submission loop\<close>

lemma makeQueueEntry_cong:
  "loopInvariant a a' \<Longrightarrow> makeQueueEntry a' ss ftd i = (makeQueueEntry a ss ftd i)\<lparr>q_uid := nextUid a'\<rparr>"
  by (simp add: loopInvariant_def makeQueueEntry_def Let_def split: option.split)

lemma makeChunk_cong:
  "loopInvariant a a' \<Longrightarrow> makeChunk a' ss i tm = makeChunk a ss i tm"
  by (simp add: loopInvariant_def makeChunk_def split: option.split)

lemma submitSample_step:
  "submitSample ds ss ftd i (a, effs) = (a', effs') \<Longrightarrow>
     loopInvariant a a' \<and> nextUid a' = Suc (nextUid a) \<and>
     decodeQueue a' = decodeQueue a @ [entryAt a ss ftd 0 i] \<and>
     effs' = effs @ decodeCall ds a ss ftd i"
  by (auto simp: submitSample_def Let_def loopInvariant_def entryAt_def decodeCall_def makeQueueEntry_def)

lemma fold_submit:
  "fold (submitSample ds ss ftd) is (a, effs) = (a', effs') \<Longrightarrow>
     loopInvariant a a' \<and> nextUid a' = nextUid a + length is \<and>
     decodeQueue a' = decodeQueue a @ map (\<lambda>(k, i). entryAt a ss ftd k i) (enumerate 0 is) \<and>
     effs' = effs @ concat (map (decodeCall ds a ss ftd) is)"
proof (induction "is" arbitrary: a' effs' rule: rev_induct)
  case Nil
  then show ?case by (simp add: loopInvariant_def)
next
  case (snoc i "is")
  obtain a1 effs1 where mid: "fold (submitSample ds ss ftd) is (a, effs) = (a1, effs1)"
    by (cases "fold (submitSample ds ss ftd) is (a, effs)")
  from snoc.IH[OF mid] have inv: "loopInvariant a a1" and uid: "nextUid a1 = nextUid a + length is"
    and q: "decodeQueue a1 = decodeQueue a @ map (\<lambda>(k, i). entryAt a ss ftd k i) (enumerate 0 is)"
    and e: "effs1 = effs @ concat (map (decodeCall ds a ss ftd) is)"
    by auto
  from snoc.prems mid have last: "submitSample ds ss ftd i (a1, effs1) = (a', effs')" by simp
  from submitSample_step[OF last] have inv1: "loopInvariant a1 a'" and uid1: "nextUid a' = Suc (nextUid a1)"
    and q1: "decodeQueue a' = decodeQueue a1 @ [entryAt a1 ss ftd 0 i]"
    and e1: "effs' = effs1 @ decodeCall ds a1 ss ftd i"
    by auto
  have ent: "entryAt a1 ss ftd 0 i = entryAt a ss ftd (length is) i"
    using makeQueueEntry_cong[OF inv] uid by (simp add: entryAt_def)
  have call: "decodeCall ds a1 ss ftd i = decodeCall ds a ss ftd i"
    using makeQueueEntry_cong[OF inv, of ss ftd i] makeChunk_cong[OF inv] inv
    by (simp add: decodeCall_def loopInvariant_def)
  have "loopInvariant a a'" using inv inv1 by (simp add: loopInvariant_def)
  then show ?case using uid uid1 q q1 e e1 ent call
    by (simp add: enumerate_append_eq)
qed

lemma minOfList_in: "xs \<noteq> [] \<Longrightarrow> minOfList xs \<in> set xs"
proof -
  assume "xs \<noteq> []"
  then obtain y ys where xs: "xs = y # ys" by (cases xs) auto
  have "minOfList xs = Min (set (y # ys))" using Min.set_eq_fold[of y ys] by (simp add: minOfList_def xs)
  then show ?thesis using Min_in[of "set (y # ys)"] xs by simp
qed

lemma maxOfList_in: "xs \<noteq> [] \<Longrightarrow> maxOfList xs \<in> set xs"
proof -
  assume "xs \<noteq> []"
  then obtain y ys where xs: "xs = y # ys" by (cases xs) auto
  have "maxOfList xs = Max (set (y # ys))" using Max.set_eq_fold[of y ys] by (simp add: maxOfList_def xs)
  then show ?thesis using Max_in[of "set (y # ys)"] xs by simp
qed

lemma minOfList_le: "x \<in> set xs \<Longrightarrow> minOfList xs \<le> x"
proof -
  assume x: "x \<in> set xs"
  then obtain y ys where xs: "xs = y # ys" by (cases xs) auto
  have "minOfList xs = Min (set (y # ys))" using Min.set_eq_fold[of y ys] by (simp add: minOfList_def xs)
  then show ?thesis using Min_le[of "set (y # ys)" x] x xs by simp
qed

lemma maxOfList_ge: "x \<in> set xs \<Longrightarrow> x \<le> maxOfList xs"
proof -
  assume x: "x \<in> set xs"
  then obtain y ys where xs: "xs = y # ys" by (cases xs) auto
  have "maxOfList xs = Max (set (y # ys))" using Max.set_eq_fold[of y ys] by (simp add: maxOfList_def xs)
  then show ?thesis using Max_ge[of "set (y # ys)" x] x xs by simp
qed

lemma ready_facts:
  assumes "hasFramesForRange a start (Finite c)"
  shows "0 < c" and "frameToDecode a \<noteq> []" and "start + c \<le> int (length (frameToDecode a))"
    and "\<forall>f \<in> set [start..start + c - 1]. js_get_int (frameToDecode a) f \<noteq> None"
    and "0 \<le> start"
proof -
  from assms show c: "0 < c" by (simp add: hasFramesForRange_def split: if_splits)
  from assms show "frameToDecode a \<noteq> []" by (simp add: hasFramesForRange_def split: if_splits)
  from assms show "start + c \<le> int (length (frameToDecode a))"
    by (simp add: hasFramesForRange_def Let_def split: if_splits)
  from assms show all: "\<forall>f \<in> set [start..start + c - 1]. js_get_int (frameToDecode a) f \<noteq> None"
    by (simp add: hasFramesForRange_def Let_def list_all_iff split: if_splits)
  have "start \<in> set [start..start + c - 1]" using c by simp
  with all have "js_get_int (frameToDecode a) start \<noteq> None" by blast
  then show "0 \<le> start" by (simp add: js_get_int_def split: if_splits)
qed

lemma map_filter_all_some:
  "\<forall>x \<in> set xs. g x \<noteq> None \<Longrightarrow> List.map_filter g xs = map (\<lambda>x. the (g x)) xs"
  by (induction xs) (auto simp: List.map_filter_simps)

lemma decoded_of_calls:
  "List.map_filter decodedSample (concat (map (decodeCall ds a ss ftd) is) @ [SetTimeout t n]) = is"
  by (induction "is") (auto simp: List.map_filter_simps decodeCall_def makeChunk_def)

lemma requested_all_some:
  assumes "hasFramesForRange a start (Finite c)"
  shows "filter (\<lambda>frame. js_get_int (frameToDecode a) frame \<noteq> None) [start..start + c - 1] = [start..start + c - 1]"
    and "requestedDecodeIndices a start c = map (\<lambda>f. the (js_get_int (frameToDecode a) f)) [start..start + c - 1]"
    and "requestedDecodeIndices a start c \<noteq> []"
proof -
  note r = ready_facts[OF assms]
  show "filter (\<lambda>frame. js_get_int (frameToDecode a) frame \<noteq> None) [start..start + c - 1] = [start..start + c - 1]"
    using r(4) by (simp add: filter_id_conv)
  show m: "requestedDecodeIndices a start c = map (\<lambda>f. the (js_get_int (frameToDecode a) f)) [start..start + c - 1]"
    unfolding requestedDecodeIndices_def using r(4) by (rule map_filter_all_some)
  have "[start..start + c - 1] \<noteq> []" using r(1) by simp
  then show "requestedDecodeIndices a start c \<noteq> []" unfolding m by simp
qed

lemma requested_bound:
  assumes "hasFramesForRange a start (Finite c)"
    and "\<And>f d. js_get (frameToDecode a) f = Some d \<Longrightarrow> d < n"
    and "d \<in> set (requestedDecodeIndices a start c)"
  shows "d < n"
proof -
  from assms(3) obtain f where f: "f \<in> set [start..start + c - 1]"
    and d: "d = the (js_get_int (frameToDecode a) f)"
    unfolding requested_all_some(2)[OF assms(1)] by auto
  from ready_facts(4)[OF assms(1)] f have "js_get_int (frameToDecode a) f \<noteq> None" by blast
  then have "js_get (frameToDecode a) (nat f) = Some d"
    using d by (auto simp: js_get_int_def split: if_splits)
  then show ?thesis by (rule assms(2))
qed

lemma feedBatchSubmit_ready:
  assumes ready: "hasFramesForRange a start (Finite c)"
    and bound: "\<And>f d. js_get (frameToDecode a) f = Some d \<Longrightarrow> d < length ss"
  shows "feedBatchSubmit assetId start c a ss w =
     (case fold (submitSample (decoders w (decoder a)) ss [start..start + c - 1])
             [keyframeIndexOf a ss start c..<Suc (maxDecodeIndexOf a start c)]
             (a\<lparr>pendingPrefetch := None, currentFetchRange := Some (start, start + c - 1)\<rparr>, [])
      of (a2, effs) \<Rightarrow> (storeAsset w assetId a2, effs @ [SetTimeout (ClearFetchRange assetId) 100]))"
proof -
  note r = ready_facts[OF ready]
  note q = requested_all_some[OF ready]
  have e: "min (start + c) (int (length (frameToDecode a))) = start + c" using r(3) by simp
  have "maxDecodeIndexOf a start c \<in> set (requestedDecodeIndices a start c)"
    unfolding maxDecodeIndexOf_def by (rule maxOfList_in[OF q(3)])
  then have "maxDecodeIndexOf a start c < length ss"
    using requested_bound[OF ready, of "length ss"] bound by blast
  then have m: "min (maxDecodeIndexOf a start c + 1) (length ss) = Suc (maxDecodeIndexOf a start c)"
    by simp
  show ?thesis
    unfolding feedBatchSubmit_def Let_def
    using q(3) m
    by (simp add: e q(1) q(1)[simplified] requestedDecodeIndices_def[symmetric] maxDecodeIndexOf_def[symmetric]
        minDecodeIndexOf_def[symmetric] keyframeIndexOf_def[symmetric] del: upt_Suc)
qed

lemma entryAt_fields:
  "q_sampleIndex (entryAt a ss ftd k i) = i"
  "q_frameIndex (entryAt a ss ftd k i) = js_get (decodeToFrame a) i"
  "q_deliver (entryAt a ss [start..start + c - 1] k i) = inRequest start c (js_get (decodeToFrame a) i)"
  by (auto simp: entryAt_def makeQueueEntry_def Let_def inRequest_def split: option.splits)

lemma entries_sampleIndex:
  "map q_sampleIndex (map (\<lambda>(k, i). entryAt a ss ftd k i) (enumerate n is)) = is"
  by (induction "is" arbitrary: n) (simp_all add: entryAt_fields)

lemma entries_marked:
  "list_all (\<lambda>e. q_frameIndex e = js_get (decodeToFrame a) (q_sampleIndex e) \<and>
                 q_deliver e = inRequest start c (q_frameIndex e))
     (map (\<lambda>(k, i). entryAt a ss [start..start + c - 1] k i) (enumerate n is))"
  by (induction "is" arbitrary: n) (simp_all add: entryAt_fields)

lemma feedBatch_ready_result:
  assumes reg: "lookupAsset w assetId = Some a" and smp: "samples a = Some ss"
    and free: "\<not> overlapsCurrentFetch a start (Finite c)"
    and ready: "hasFramesForRange a start (Finite c)"
    and bound: "\<forall>f d. js_get (frameToDecode a) f = Some d \<longrightarrow> d < length ss"
  shows "\<exists>a' newEntries.
      lookupAsset (fst (feedBatch assetId start (Finite c) w)) assetId = Some a' \<and>
      List.map_filter decodedSample (snd (feedBatch assetId start (Finite c) w)) =
        [keyframeIndexOf a ss start c..<Suc (maxDecodeIndexOf a start c)] \<and>
      decodeQueue a' = decodeQueue a @ newEntries \<and>
      map q_sampleIndex newEntries = [keyframeIndexOf a ss start c..<Suc (maxDecodeIndexOf a start c)] \<and>
      list_all (\<lambda>e. q_frameIndex e = js_get (decodeToFrame a) (q_sampleIndex e) \<and>
                     q_deliver e = inRequest start c (q_frameIndex e)) newEntries \<and>
      currentFetchRange a' = Some (start, start + c - 1) \<and>
      frameToDecode a' = frameToDecode a"
proof -
  let ?is = "[keyframeIndexOf a ss start c..<Suc (maxDecodeIndexOf a start c)]"
  let ?a1 = "a\<lparr>pendingPrefetch := None, currentFetchRange := Some (start, start + c - 1)\<rparr>"
  let ?ftd = "[start..start + c - 1]"
  let ?ds = "decoders w (decoder a)"
  have bound': "\<And>f d. js_get (frameToDecode a) f = Some d \<Longrightarrow> d < length ss"
    using bound by blast
  obtain a2 effs where f: "fold (submitSample ?ds ss ?ftd) ?is (?a1, []) = (a2, effs)"
    by (cases "fold (submitSample ?ds ss ?ftd) ?is (?a1, [])")
  have fb: "feedBatch assetId start (Finite c) w =
      (storeAsset w assetId a2, effs @ [SetTimeout (ClearFetchRange assetId) 100])"
    using reg smp free ready ready_facts(2)[OF ready] feedBatchSubmit_ready[OF ready bound', where assetId=assetId and w=w] f
    by (simp add: feedBatch_def del: upt_Suc)
  from fold_submit[OF f] have inv: "loopInvariant ?a1 a2"
    and q: "decodeQueue a2 = decodeQueue ?a1 @ map (\<lambda>(k, i). entryAt ?a1 ss ?ftd k i) (enumerate 0 ?is)"
    and e: "effs = concat (map (decodeCall ?ds ?a1 ss ?ftd) ?is)"
    by auto
  let ?new = "map (\<lambda>(k, i). entryAt ?a1 ss ?ftd k i) (enumerate 0 ?is)"
  have 1: "lookupAsset (fst (feedBatch assetId start (Finite c) w)) assetId = Some a2"
    by (simp add: fb lookup_store)
  have 2: "List.map_filter decodedSample (snd (feedBatch assetId start (Finite c) w)) = ?is"
    unfolding fb snd_conv e by (rule decoded_of_calls)
  have 3: "decodeQueue a2 = decodeQueue a @ ?new" using q by simp
  have 4: "map q_sampleIndex ?new = ?is" by (rule entries_sampleIndex)
  have 5: "list_all (\<lambda>e. q_frameIndex e = js_get (decodeToFrame a) (q_sampleIndex e) \<and>
                     q_deliver e = inRequest start c (q_frameIndex e)) ?new"
    using entries_marked[where a="?a1" and start=start and c=c and ss=ss and n=0 and ?is="?is"] by simp
  have 6: "currentFetchRange a2 = Some (start, start + c - 1)" "frameToDecode a2 = frameToDecode a"
    using inv by (simp_all add: loopInvariant_def)
  show ?thesis using 1 2 3 4 5 6 by blast
qed


section \<open>Samples and tables once the timeline is built\<close>

lemma forEach_samples:
  "map unstamped (tb_samples (fold timelineForEachStep ps T)) = map unstamped (tb_samples T)"
proof (induction ps arbitrary: T)
  case Nil
  show ?case by simp
next
  case (Cons p ps)
  obtain fi entry where p: "p = (fi, entry)" by (cases p)
  let ?xs = "tb_samples T" and ?i = "t_decodeIndex entry"
  have u: "unstamped ((?xs ! ?i)\<lparr>frameIndex := Some fi\<rparr>) = unstamped (?xs ! ?i)"
    by (simp add: unstamped_def)
  have "map unstamped (?xs[?i := (?xs ! ?i)\<lparr>frameIndex := Some fi\<rparr>]) = map unstamped ?xs"
  proof (cases "?i < length ?xs")
    case True
    then have "(map unstamped ?xs)[?i := unstamped (?xs ! ?i)] = map unstamped ?xs"
      by (metis list_update_id nth_map)
    then show ?thesis by (simp only: map_update u)
  next
    case False
    then have "?xs[?i := (?xs ! ?i)\<lparr>frameIndex := Some fi\<rparr>] = ?xs"
      by (intro list_update_beyond) simp
    then show ?thesis by (simp only:)
  qed
  then have "map unstamped (tb_samples (timelineForEachStep p T)) = map unstamped (tb_samples T)"
    by (simp add: p timelineForEachStep_def)
  then show ?case using Cons.IH[of "timelineForEachStep p T"] by simp
qed

lemma mapped_samples:
  "map (\<lambda>p. unstamped (fst (timelineMapStep tscale fpsv p))) (enumerate n ss) = map unstamped ss"
  by (induction ss arbitrary: n) (auto simp: timelineMapStep_def Let_def unstamped_def)

lemma buildTimeline_samples:
  "map unstamped (tb_samples (buildTimeline tscale fpsv ss)) = map unstamped ss"
  unfolding buildTimeline_def Let_def forEach_samples by (simp add: mapped_samples comp_def)

lemma unstamped_sync: "map unstamped xs = map unstamped ys \<Longrightarrow> syncAt xs i = syncAt ys i"
proof -
  assume e: "map unstamped xs = map unstamped ys"
  then have l: "length xs = length ys" by (rule map_eq_imp_length_eq)
  have "is_sync (xs ! i) = is_sync (ys ! i)" if "i < length xs"
  proof -
    have "unstamped (xs ! i) = unstamped (ys ! i)"
      using e that l by (metis nth_map)
    then have "is_sync (unstamped (xs ! i)) = is_sync (unstamped (ys ! i))" by simp
    then show ?thesis by (simp add: unstamped_def)
  qed
  then show ?thesis using l by (auto simp: syncAt_def)
qed

lemma timeline_points_at_samples:
  assumes "samples a0 = Some ss0"
  shows "\<exists>ss. samples (updatePresentationTimeline a0) = Some ss \<and>
           map unstamped ss = map unstamped ss0 \<and>
           (\<forall>f d. js_get (frameToDecode (updatePresentationTimeline a0)) f = Some d \<longrightarrow> d < length ss)"
proof (cases "ss0 = []")
  case True
  then show ?thesis using assms by (simp add: updatePresentationTimeline_def js_get_def)
next
  case False
  let ?T = "buildTimeline (timescale a0) (fps a0) ss0"
  have s: "samples (updatePresentationTimeline a0) = Some (tb_samples ?T)"
    and f: "frameToDecode (updatePresentationTimeline a0) = tb_frameToDecode ?T"
    using assms False by (simp_all add: updatePresentationTimeline_def Let_def)
  have u: "map unstamped (tb_samples ?T) = map unstamped ss0" by (rule buildTimeline_samples)
  then have l: "length (tb_samples ?T) = length ss0" by (rule map_eq_imp_length_eq)
  note B = buildTimeline_bijection[where tscale="timescale a0" and fpsv="fps a0" and ss=ss0]
  have "d < length ss0" if "js_get (tb_frameToDecode ?T) f = Some d" for f d
  proof -
    from that have "f < length ss0" using B(1) by (simp add: js_get_def split: if_splits)
    with B(3) that show ?thesis by force
  qed
  then show ?thesis using s f u l by simp
qed

section \<open>Streams already in presentation order\<close>









section \<open>The example assets\<close>

lemma worldWith_lookup: "lookupAsset (worldWith a) ''asset#2'' = Some a"
  by (simp add: worldWith_def lookupAsset_def)

lemma worldWith_decoder: "decoders (worldWith a) (Suc 0) = Configured"
  by (simp add: worldWith_def)

lemma update_keeps:
  "currentFetchRange (updatePresentationTimeline a) = currentFetchRange a"
  "pendingPrefetch (updatePresentationTimeline a) = pendingPrefetch a"
  "decodeQueue (updatePresentationTimeline a) = decodeQueue a"
  "decoder (updatePresentationTimeline a) = decoder a"
  "copyMethod (updatePresentationTimeline a) = copyMethod a"
  by (simp_all add: updatePresentationTimeline_def Let_def split: option.splits)

lemma example_fields:
  "currentFetchRange (assetWithSamples ss) = None"
  "pendingPrefetch (assetWithSamples ss) = None"
  "decodeQueue (assetWithSamples ss) = []"
  "decoder (assetWithSamples ss) = 1"
  "copyMethod (assetWithSamples ss) = None"
  by (simp_all add: assetWithSamples_def update_keeps newAsset_def Let_def)

lemma example_samples:
  "samples (assetWithSamples ss) = Some (samplesOf (assetWithSamples ss))"
  "map unstamped (samplesOf (assetWithSamples ss)) = map unstamped ss"
  "js_get (frameToDecode (assetWithSamples ss)) f = Some d \<Longrightarrow> d < length (samplesOf (assetWithSamples ss))"
proof -
  have "samples ((newAsset 4096 1 exampleTrack)\<lparr>samples := Some ss\<rparr>) = Some ss" by simp
  from timeline_points_at_samples[OF this] obtain S where
    S: "samples (assetWithSamples ss) = Some S" "map unstamped S = map unstamped ss"
      "\<forall>f d. js_get (frameToDecode (assetWithSamples ss)) f = Some d \<longrightarrow> d < length S"
    unfolding assetWithSamples_def by blast
  have e: "samplesOf (assetWithSamples ss) = S" by (simp add: samplesOf_def S(1))
  show "samples (assetWithSamples ss) = Some (samplesOf (assetWithSamples ss))" by (simp add: e S(1))
  show "map unstamped (samplesOf (assetWithSamples ss)) = map unstamped ss" by (simp add: e S(2))
  show "js_get (frameToDecode (assetWithSamples ss)) f = Some d \<Longrightarrow> d < length (samplesOf (assetWithSamples ss))"
    using S(3) e by blast
qed

lemma example_not_busy: "\<not> overlapsCurrentFetch (assetWithSamples ss) start cnt"
  by (simp add: overlapsCurrentFetch_def example_fields)

lemma scan_cong:
  "(\<And>i. syncAt xs i = syncAt ys i) \<Longrightarrow> scanKeyframe xs m = scanKeyframe ys m"
  by (induction m) simp_all

lemma findKeyframe_unstamped:
  "map unstamped xs = map unstamped ys \<Longrightarrow> findKeyframeIndex xs m = findKeyframeIndex ys m"
  unfolding findKeyframeIndex_def using scan_cong[of xs ys m] unstamped_sync[of xs ys] by simp







section \<open>The end-to-end scenario and overlapping requests\<close>

lemma hasFrames_cong:
  "frameToDecode a' = frameToDecode a \<Longrightarrow> hasFramesForRange a' s cnt = hasFramesForRange a s cnt"
  by (simp add: hasFramesForRange_def split: number.split)



lemma example_bound:
  "\<forall>f d. js_get (frameToDecode (assetWithSamples ss)) f = Some d \<longrightarrow> d < length (samplesOf (assetWithSamples ss))"
  using example_samples(3) by blast





section \<open>A stream without keyframes\<close>

lemma noKeyframe_tables:
  "tb_frameToDecode (buildTimeline 30000 30 noKeyframeSamples) = [Some 0, Some 1, Some 2]"
  by code_simp

lemma noKeyframe_asset:
  "frameToDecode (assetWithSamples noKeyframeSamples) = [Some 0, Some 1, Some 2]"
proof -
  have ne: "noKeyframeSamples \<noteq> []" by (simp add: noKeyframeSamples_def)
  show ?thesis using assetWithSamples_tables(1)[OF ne] noKeyframe_tables by simp
qed

lemma upto_2_2: "[(2::int)..2] = [2]"
  by code_simp

lemma noKeyframe_ready: "hasFramesForRange (assetWithSamples noKeyframeSamples) 2 (Finite 1)"
  by (simp add: hasFramesForRange_def noKeyframe_asset js_get_int_def js_get_def upto_2_2)

lemma noKeyframe_scan: "findKeyframeIndex noKeyframeSamples 2 = 2" "\<not> syncAt noKeyframeSamples 2"
  by code_simp+

lemma noKeyframe_range:
  "minDecodeIndexOf (assetWithSamples noKeyframeSamples) 2 1 = 2"
  "maxDecodeIndexOf (assetWithSamples noKeyframeSamples) 2 1 = 2"
  "keyframeIndexOf (assetWithSamples noKeyframeSamples) (samplesOf (assetWithSamples noKeyframeSamples)) 2 1 = 2"
proof -
  have r: "requestedDecodeIndices (assetWithSamples noKeyframeSamples) 2 1 = [2]"
    by (simp add: requestedDecodeIndices_def noKeyframe_asset js_get_int_def js_get_def upto_2_2
        List.map_filter_simps)
  show m: "minDecodeIndexOf (assetWithSamples noKeyframeSamples) 2 1 = 2"
    by (simp add: minDecodeIndexOf_def r minOfList_def)
  show "maxDecodeIndexOf (assetWithSamples noKeyframeSamples) 2 1 = 2"
    by (simp add: maxDecodeIndexOf_def r maxOfList_def)
  show "keyframeIndexOf (assetWithSamples noKeyframeSamples) (samplesOf (assetWithSamples noKeyframeSamples)) 2 1 = 2"
    unfolding keyframeIndexOf_def m
    using findKeyframe_unstamped[OF example_samples(2)[of noKeyframeSamples], of 2] noKeyframe_scan(1)
    by simp
qed

theorem keyframe_scan_counterexample:
  "hasFramesForRange (assetWithSamples noKeyframeSamples) 2 (Finite 1) \<and>
   minDecodeIndexOf (assetWithSamples noKeyframeSamples) 2 1 = 2 \<and>
   List.map_filter decodedSample
     (snd (feedBatch ''asset#2'' 2 (Finite 1) (worldWith (assetWithSamples noKeyframeSamples)))) = [2] \<and>
   \<not> (findKeyframeIndex noKeyframeSamples 2 \<le> 2 \<and>
      (syncAt noKeyframeSamples (findKeyframeIndex noKeyframeSamples 2) \<or>
       findKeyframeIndex noKeyframeSamples 2 = 0))"
proof -
  have u: "[2..<Suc 2] = [2::nat]" by (simp add: upt_rec)
  from feedBatch_ready_result[OF worldWith_lookup example_samples(1) example_not_busy noKeyframe_ready example_bound,
      unfolded noKeyframe_range u]
  have d: "List.map_filter decodedSample
     (snd (feedBatch ''asset#2'' 2 (Finite 1) (worldWith (assetWithSamples noKeyframeSamples)))) = [2]"
    by blast
  show ?thesis using noKeyframe_ready noKeyframe_range(1) d noKeyframe_scan by simp
qed

section \<open>Requests ahead of the timeline\<close>

lemma strictNe_refl: "cnt \<noteq> NaN \<Longrightarrow> \<not> strictNe cnt cnt"
  by (cases cnt) simp_all

lemma strictNe_eq: "\<not> strictNe pc cnt \<Longrightarrow> pc = cnt"
  by (cases pc; cases cnt) simp_all

lemma gate_closed:
  assumes reg: "lookupAsset w assetId = Some a" and free: "\<not> overlapsCurrentFetch a start cnt"
    and smp: "samples a = Some ss" and tl: "frameToDecode a \<noteq> []"
    and notready: "\<not> hasFramesForRange a start cnt"
  shows "feedBatch assetId start cnt w =
           (if pendingDiffers a start cnt
            then (storeAsset w assetId (a\<lparr>pendingPrefetch := Some (start, cnt)\<rparr>),
                  [Mp4boxFlush, SetTimeout (RetryFeedBatch assetId start cnt) 16])
            else (w, [SetTimeout (RetryFeedBatch assetId start cnt) 16]))"
  using assms by (simp add: feedBatch_def)

lemma gate_closed_pending:
  assumes reg: "lookupAsset w assetId = Some a" and free: "\<not> overlapsCurrentFetch a start cnt"
    and smp: "samples a = Some ss" and tl: "frameToDecode a \<noteq> []"
    and notready: "\<not> hasFramesForRange a start cnt"
  shows "\<exists>a'. lookupAsset (fst (feedBatch assetId start cnt w)) assetId = Some a' \<and>
           pendingPrefetch a' = Some (start, cnt) \<and> samples a' = samples a \<and>
           frameToDecode a' = frameToDecode a \<and> currentFetchRange a' = currentFetchRange a"
proof (cases "pendingDiffers a start cnt")
  case True
  then show ?thesis using gate_closed[OF assms] by (simp add: lookup_store)
next
  case False
  then obtain ps pc where p: "pendingPrefetch a = Some (ps, pc)" "ps = start" "\<not> strictNe pc cnt"
    by (auto simp: pendingDiffers_def split: option.splits)
  then have "pendingPrefetch a = Some (start, cnt)" using strictNe_eq by simp
  then show ?thesis using False gate_closed[OF assms] reg by simp
qed

lemma gate_idle:
  assumes "lookupAsset w assetId = None \<or>
           (\<exists>a. lookupAsset w assetId = Some a \<and>
                 (overlapsCurrentFetch a start cnt \<or> samples a = None \<or> frameToDecode a = []))"
  shows "fst (feedBatch assetId start cnt w) = w \<and>
         list_all (\<lambda>e. e = ConsoleWarn) (snd (feedBatch assetId start cnt w))"
  using assms by (auto simp: feedBatch_def split: option.splits)

text \<open>
  Claim C7 (amended). When \<open>feedBatch\<close> is called for a registered asset that has samples
  and a non-empty timeline, with no overlapping fetch in flight, before the timeline
  resolves every frame of \<open>[start, start + count)\<close>, it makes no \<^verbatim>\<open>decoder.decode\<close> call,
  leaves the request recorded as pending and schedules one retry 16 ms later; it flushes
  the demuxer only when the pending record is newly written, so a retry of the same
  request (a \<open>count\<close> other than \<^verbatim>\<open>NaN\<close>) schedules the next retry without a flush. With no
  asset, an overlapping in-flight fetch, no samples or an empty timeline, it changes
  nothing and schedules nothing.
\<close>

theorem readiness_gate:
  "(lookupAsset w assetId = Some a \<and> \<not> overlapsCurrentFetch a start cnt \<and>
    samples a \<noteq> None \<and> frameToDecode a \<noteq> [] \<and> \<not> hasFramesForRange a start cnt \<longrightarrow>
      list_all (\<lambda>e. \<not> isDecode e) (snd (feedBatch assetId start cnt w)) \<and>
      pendingOf (fst (feedBatch assetId start cnt w)) assetId = Some (Some (start, cnt)) \<and>
      snd (feedBatch assetId start cnt w) =
        (if pendingDiffers a start cnt then [Mp4boxFlush] else [])
          @ [SetTimeout (RetryFeedBatch assetId start cnt) 16] \<and>
      (cnt \<noteq> NaN \<longrightarrow>
         snd (feedBatch assetId start cnt (fst (feedBatch assetId start cnt w))) =
           [SetTimeout (RetryFeedBatch assetId start cnt) 16])) \<and>
   (lookupAsset w assetId = None \<or>
    (lookupAsset w assetId = Some a \<and>
       (overlapsCurrentFetch a start cnt \<or> samples a = None \<or> frameToDecode a = [])) \<longrightarrow>
      fst (feedBatch assetId start cnt w) = w \<and>
      list_all (\<lambda>e. e = ConsoleWarn) (snd (feedBatch assetId start cnt w)))"
proof (intro conjI impI)
  assume "lookupAsset w assetId = None \<or>
    (lookupAsset w assetId = Some a \<and>
       (overlapsCurrentFetch a start cnt \<or> samples a = None \<or> frameToDecode a = []))"
  then have i: "lookupAsset w assetId = None \<or>
           (\<exists>a. lookupAsset w assetId = Some a \<and>
                 (overlapsCurrentFetch a start cnt \<or> samples a = None \<or> frameToDecode a = []))"
    by blast
  from gate_idle[OF i] show "fst (feedBatch assetId start cnt w) = w"
    and "list_all (\<lambda>e. e = ConsoleWarn) (snd (feedBatch assetId start cnt w))" by blast+
next
  assume h: "lookupAsset w assetId = Some a \<and> \<not> overlapsCurrentFetch a start cnt \<and>
    samples a \<noteq> None \<and> frameToDecode a \<noteq> [] \<and> \<not> hasFramesForRange a start cnt"
  then obtain ss where a: "lookupAsset w assetId = Some a" "\<not> overlapsCurrentFetch a start cnt"
    "samples a = Some ss" "frameToDecode a \<noteq> []" "\<not> hasFramesForRange a start cnt"
    by auto
  note g = gate_closed[OF a]
  show "list_all (\<lambda>e. \<not> isDecode e) (snd (feedBatch assetId start cnt w))"
    by (simp add: g)
  show e: "snd (feedBatch assetId start cnt w) =
        (if pendingDiffers a start cnt then [Mp4boxFlush] else [])
          @ [SetTimeout (RetryFeedBatch assetId start cnt) 16]"
    by (simp add: g)
  from gate_closed_pending[OF a] obtain a' where a':
    "lookupAsset (fst (feedBatch assetId start cnt w)) assetId = Some a'"
    "pendingPrefetch a' = Some (start, cnt)" "samples a' = samples a"
    "frameToDecode a' = frameToDecode a" "currentFetchRange a' = currentFetchRange a"
    by blast
  show "pendingOf (fst (feedBatch assetId start cnt w)) assetId = Some (Some (start, cnt))"
    by (simp add: pendingOf_def a'(1,2))
  show "snd (feedBatch assetId start cnt (fst (feedBatch assetId start cnt w))) =
           [SetTimeout (RetryFeedBatch assetId start cnt) 16]" if "cnt \<noteq> NaN"
  proof -
    have 1: "\<not> overlapsCurrentFetch a' start cnt"
      using a(2) a'(5) by (simp add: overlapsCurrentFetch_def)
    have 2: "\<not> hasFramesForRange a' start cnt" using a(5) hasFrames_cong[OF a'(4)] by simp
    have 3: "\<not> pendingDiffers a' start cnt"
      using a'(2) strictNe_refl[OF that] by (simp add: pendingDiffers_def)
    have 4: "samples a' = Some ss" "frameToDecode a' \<noteq> []" using a'(3,4) a(3,4) by simp_all
    show ?thesis using gate_closed[OF a'(1) 1 4 2] 3 by simp
  qed
qed

theorem readiness_gate_witness:
  "\<not> hasFramesForRange (assetWithSamples reorderedSamples) 2 (Finite 5) \<and>
   frameToDecode (assetWithSamples reorderedSamples) \<noteq> [] \<and>
   snd (feedBatch ''asset#2'' 2 (Finite 5) (worldWith (assetWithSamples reorderedSamples))) =
     [Mp4boxFlush, SetTimeout (RetryFeedBatch ''asset#2'' 2 (Finite 5)) 16] \<and>
   pendingOf (fst (feedBatch ''asset#2'' 2 (Finite 5) (worldWith (assetWithSamples reorderedSamples)))) ''asset#2''
     = Some (Some (2, Finite 5)) \<and>
   snd (feedBatch ''asset#2'' 2 (Finite 5)
          (fst (feedBatch ''asset#2'' 2 (Finite 5) (worldWith (assetWithSamples reorderedSamples))))) =
     [SetTimeout (RetryFeedBatch ''asset#2'' 2 (Finite 5)) 16]"
proof -
  let ?A = "assetWithSamples reorderedSamples"
  have ne: "reorderedSamples \<noteq> []" by (simp add: reorderedSamples_def)
  have f: "frameToDecode ?A = [Some 0, Some 2, Some 3, Some 1]"
    using assetWithSamples_tables(1)[OF ne] reordered_tables(1) by simp
  have 1: "\<not> hasFramesForRange ?A 2 (Finite 5)" by (simp add: hasFramesForRange_def f)
  have 2: "frameToDecode ?A \<noteq> []" by (simp add: f)
  have 3: "pendingDiffers ?A 2 (Finite 5)" by (simp add: pendingDiffers_def example_fields)
  have 4: "samples ?A \<noteq> None" by (simp add: example_samples(1))
  from readiness_gate[of "worldWith ?A" "''asset#2''" ?A 2 "Finite 5"]
    worldWith_lookup[of ?A] example_not_busy[of reorderedSamples 2 "Finite 5"] 1 2 3 4
  show ?thesis by simp
qed

lemma newAsset_fields:
  "samples (newAsset p h t) = None" "frameToDecode (newAsset p h t) = []"
  "currentFetchRange (newAsset p h t) = None" "pendingPrefetch (newAsset p h t) = None"
  by (simp_all add: newAsset_def Let_def)

theorem readiness_gate_counterexample:
  "\<not> hasFramesForRange (newAsset 4096 1 exampleTrack) 0 (Finite 10) \<and>
   snd (feedBatch ''asset#2'' 0 (Finite 10) (worldWith (newAsset 4096 1 exampleTrack))) = [ConsoleWarn] \<and>
   pendingOf (fst (feedBatch ''asset#2'' 0 (Finite 10) (worldWith (newAsset 4096 1 exampleTrack)))) ''asset#2''
     = Some None"
proof -
  let ?a = "newAsset 4096 1 exampleTrack"
  note s = newAsset_fields
  have 1: "\<not> hasFramesForRange ?a 0 (Finite 10)" by (simp add: hasFramesForRange_def s)
  have 2: "feedBatch ''asset#2'' 0 (Finite 10) (worldWith (newAsset p h t)) = (worldWith (newAsset p h t), [ConsoleWarn])"
    for p h t
    by (simp add: feedBatch_def worldWith_lookup overlapsCurrentFetch_def s)
  show ?thesis using 1 by (simp add: 2 pendingOf_def worldWith_lookup s)
qed

section \<open>The output handler\<close>

lemma closeCount_simps [simp]:
  "closeCount [] = 0"
  "closeCount (e # es) = (if e = FrameClose then Suc (closeCount es) else closeCount es)"
  "closeCount (xs @ ys) = closeCount xs + closeCount ys"
  by (simp_all add: closeCount_def)

lemma ensureCanvas_method: "copyMethod (ensureCanvasForAsset w a wd ht) = copyMethod a"
  by (simp add: ensureCanvasForAsset_def Let_def)

lemma viaCanvas_method:
  "copyFrameViaCanvas w frame wd ht a = Inl a' \<Longrightarrow> copyMethod a' = copyMethod a"
  "copyFrameViaCanvas w frame wd ht a = Inr a' \<Longrightarrow> copyMethod a' = copyMethod a"
  by (auto simp: copyFrameViaCanvas_def Let_def ensureCanvas_method split: if_splits)

lemma copyFrame_facts:
  assumes "copyFrame w frame wd ht a = (a', ok, effs)"
  shows "copyMethod a' = decidedMethod (copyMethod a) frame"
    and "closeCount effs = 0"
    and "CanvasCopy \<in> set effs \<longleftrightarrow> copyMethod a = Some Canvas \<or> vf_copyToFails frame"
    and "FrameCopyTo \<in> set effs \<longleftrightarrow> copyMethod a \<noteq> Some Canvas"
proof -
  show "copyMethod a' = decidedMethod (copyMethod a) frame"
    using assms
    by (auto simp: copyFrame_def decidedMethod_def Let_def viaCanvas_method
        split: if_splits sum.splits option.splits)
  show "closeCount effs = 0"
    using assms by (auto simp: copyFrame_def Let_def split: if_splits sum.splits)
  show "CanvasCopy \<in> set effs \<longleftrightarrow> copyMethod a = Some Canvas \<or> vf_copyToFails frame"
    using assms by (auto simp: copyFrame_def Let_def split: if_splits sum.splits)
  show "FrameCopyTo \<in> set effs \<longleftrightarrow> copyMethod a \<noteq> Some Canvas"
    using assms by (auto simp: copyFrame_def Let_def split: if_splits sum.splits)
qed

lemma requiredBytes_method:
  "requiredBytesFor a frame fw fh = (rb, a1) \<Longrightarrow> copyMethod a1 = copyMethod a"
  by (auto simp: requiredBytesFor_def Let_def split: if_splits option.splits)

lemma ensureBuffer_method:
  "ensureBuffer rb a w = (a2, w1) \<Longrightarrow> copyMethod a2 = copyMethod a"
  by (auto simp: ensureBuffer_def Let_def split: if_splits prod.splits)

lemma finishDelivery_facts:
  assumes "finishDelivery assetId t fw fh rb a ok w = (w2, effs)"
  shows "\<exists>a'. lookupAsset w2 assetId = Some a' \<and> copyMethod a' = copyMethod a"
    and "closeCount effs = 1" and "CanvasCopy \<notin> set effs" and "FrameCopyTo \<notin> set effs"
  using assms
  by (auto simp: finishDelivery_def Let_def lookup_store split: if_splits prod.splits)

lemma deliverFrame_facts:
  assumes "deliverFrame assetId frame t lc a w = (w', effs)"
  shows "\<exists>a'. lookupAsset w' assetId = Some a' \<and> copyMethod a' = decidedMethod (copyMethod a) frame"
    and "closeCount effs = 1"
    and "CanvasCopy \<in> set effs \<longleftrightarrow> copyMethod a = Some Canvas \<or> vf_copyToFails frame"
    and "FrameCopyTo \<in> set effs \<longleftrightarrow> copyMethod a \<noteq> Some Canvas"
proof -
  obtain fw fh where fs: "frameSize lc frame = (fw, fh)" by (cases "frameSize lc frame")
  obtain rb a1 where r: "requiredBytesFor a frame fw fh = (rb, a1)"
    by (cases "requiredBytesFor a frame fw fh")
  obtain a2 w1 where b: "ensureBuffer rb a1 w = (a2, w1)" by (cases "ensureBuffer rb a1 w")
  obtain a3 ok ce where c: "copyFrame w1 frame fw fh a2 = (a3, ok, ce)"
    by (cases "copyFrame w1 frame fw fh a2") auto
  obtain w2 fe where f: "finishDelivery assetId t fw fh rb a3 ok w1 = (w2, fe)"
    by (cases "finishDelivery assetId t fw fh rb a3 ok w1")
  have res: "w' = w2" "effs = ce @ fe"
    using assms by (simp_all add: deliverFrame_def fs r b c f)
  have m: "copyMethod a2 = copyMethod a"
    using requiredBytes_method[OF r] ensureBuffer_method[OF b] by simp
  note cf = copyFrame_facts[OF c, unfolded m]
  note ff = finishDelivery_facts[OF f]
  show "\<exists>a'. lookupAsset w' assetId = Some a' \<and> copyMethod a' = decidedMethod (copyMethod a) frame"
    using ff(1) cf(1) res by simp
  show "closeCount effs = 1" using ff(2) cf(2) res by simp
  show "CanvasCopy \<in> set effs \<longleftrightarrow> copyMethod a = Some Canvas \<or> vf_copyToFails frame"
    using ff(3) cf(3) res by simp
  show "FrameCopyTo \<in> set effs \<longleftrightarrow> copyMethod a \<noteq> Some Canvas"
    using ff(4) cf(4) res by simp
qed

lemma matchByTimestamp_method:
  "matchByTimestamp a ts = (qe, a') \<Longrightarrow> copyMethod a' = copyMethod a"
  by (auto simp: matchByTimestamp_def split: option.splits list.splits)

lemma matchByQueueHead_method:
  "matchByQueueHead a = (qe, a') \<Longrightarrow> copyMethod a' = copyMethod a"
  by (auto simp: matchByQueueHead_def split: option.splits list.splits)

lemma matchQueueEntry_method:
  "matchQueueEntry a ts = (qe, a') \<Longrightarrow> copyMethod a' = copyMethod a"
proof -
  assume r: "matchQueueEntry a ts = (qe, a')"
  obtain q1 a1 where t: "matchByTimestamp a ts = (q1, a1)" by (cases "matchByTimestamp a ts")
  show ?thesis
  proof (cases q1)
    case None
    then have "matchByQueueHead a1 = (qe, a')" using r t by (simp add: matchQueueEntry_def)
    then show ?thesis using matchByQueueHead_method matchByTimestamp_method[OF t] by metis
  next
    case (Some e)
    then have "a' = a1" using r t by (simp add: matchQueueEntry_def)
    then show ?thesis using matchByTimestamp_method[OF t] by simp
  qed
qed

text \<open>The exits of the output handler: which one is taken, and what it leaves.\<close>

lemma decoderOutput_cases:
  assumes "decoderOutput assetId frame (lc, w) = ((lc', w'), effs)"
  shows "(lookupAsset w assetId = None \<and> w' = w \<and> effs = [FrameClose]) \<or>
         (\<exists>a0 a. lookupAsset w assetId = Some a0 \<and> copyMethod a = copyMethod a0 \<and>
                 w' = storeAsset w assetId a \<and> (effs = [FrameClose] \<or> effs = [ConsoleWarn, FrameClose])) \<or>
         (\<exists>a0 a t lcx de. lookupAsset w assetId = Some a0 \<and> copyMethod a = copyMethod a0 \<and>
                 deliverFrame assetId frame t lcx a w = (w', de) \<and> (effs = de \<or> effs = ConsoleWarn # de))"
proof (cases "lookupAsset w assetId")
  case None
  then show ?thesis using assms by (simp add: decoderOutput_def)
next
  case (Some a0)
  obtain qe a where m: "matchQueueEntry a0 (vf_timestamp frame) = (qe, a)"
    by (cases "matchQueueEntry a0 (vf_timestamp frame)")
  note cm = matchQueueEntry_method[OF m]
  let ?drop = "isInitialPrefill a \<and> initialPrefillFrames a \<le> currentPrefillIndex a"
  show ?thesis
  proof (cases qe)
    case None
    let ?lc = "lc\<lparr>lc_frameIndex := Suc (lc_frameIndex lc)\<rparr>"
    show ?thesis
    proof (cases ?drop)
      case True
      then have "w' = storeAsset w assetId a" "effs = [ConsoleWarn, FrameClose]"
        using assms Some m None by (simp_all add: decoderOutput_def Let_def)
      then show ?thesis using Some cm by blast
    next
      case False
      obtain wd de where d: "deliverFrame assetId frame (lc_frameIndex lc) ?lc a w = (wd, de)"
        by (cases "deliverFrame assetId frame (lc_frameIndex lc) ?lc a w")
      then have "w' = wd" "effs = ConsoleWarn # de"
        using assms Some m None False by (auto simp: decoderOutput_def Let_def)
      then show ?thesis using Some cm d by blast
    qed
  next
    case (Some e)
    let ?t = "case q_frameIndex e of Some f \<Rightarrow> f | None \<Rightarrow> q_sampleIndex e"
    let ?lc = "lc\<lparr>lc_frameIndex := max (lc_frameIndex lc) (?t + 1)\<rparr>"
    note reg = \<open>lookupAsset w assetId = Some a0\<close>
    show ?thesis
    proof (cases "\<not> q_deliver e \<or> ?drop")
      case True
      then have "w' = storeAsset w assetId a" "effs = [FrameClose]"
        using assms reg m Some by (auto simp: decoderOutput_def Let_def split: if_splits)
      then show ?thesis using reg cm by blast
    next
      case False
      obtain wd de where d: "deliverFrame assetId frame ?t ?lc a w = (wd, de)"
        by (cases "deliverFrame assetId frame ?t ?lc a w")
      then have "w' = wd" "effs = de"
        using assms reg m Some False by (auto simp: decoderOutput_def Let_def)
      then show ?thesis using reg cm d by blast
    qed
  qed
qed

lemma decoderOutput_close: "closeCount (snd (decoderOutput assetId frame st)) = 1"
proof -
  obtain lc w where st: "st = (lc, w)" by (cases st)
  obtain lc' w' effs where r: "decoderOutput assetId frame (lc, w) = ((lc', w'), effs)"
    by (cases "decoderOutput assetId frame (lc, w)") auto
  from decoderOutput_cases[OF r] show ?thesis
    unfolding st r snd_conv
    by (auto dest: deliverFrame_facts(2))
qed

lemma decoderOutput_method:
  assumes r: "decoderOutput assetId frame (lc, w) = ((lc', w'), effs)"
    and reg: "lookupAsset w assetId = Some a" and m: "copyMethod a = Some m"
  shows "\<exists>a'. lookupAsset w' assetId = Some a' \<and> copyMethod a' = Some m"
    and "CanvasCopy \<in> set effs \<Longrightarrow> m = Canvas \<or> vf_copyToFails frame"
    and "FrameCopyTo \<in> set effs \<Longrightarrow> vf_copyToFails frame \<Longrightarrow> CanvasCopy \<in> set effs"
proof -
  from decoderOutput_cases[OF r] reg m
  show "\<exists>a'. lookupAsset w' assetId = Some a' \<and> copyMethod a' = Some m"
    by (auto simp: lookup_store decidedMethod_def dest!: deliverFrame_facts(1))
  from decoderOutput_cases[OF r] reg m
  show "CanvasCopy \<in> set effs \<Longrightarrow> m = Canvas \<or> vf_copyToFails frame"
    by (auto dest: deliverFrame_facts(3))
  from decoderOutput_cases[OF r] reg m
  show "FrameCopyTo \<in> set effs \<Longrightarrow> vf_copyToFails frame \<Longrightarrow> CanvasCopy \<in> set effs"
    by (auto dest: deliverFrame_facts(3))
qed

lemma waiting_stage:
  "requiredBytesFor a frame fw fh = (rb, a1) \<Longrightarrow> waiting a a1 \<and> currentPrefillIndex a1 = currentPrefillIndex a"
  "ensureBuffer rb a w = (a2, w1) \<Longrightarrow> waiting a a2 \<and> currentPrefillIndex a2 = currentPrefillIndex a"
  "copyFrame w frame fw fh a = (a3, ok, ce) \<Longrightarrow> waiting a a3 \<and> currentPrefillIndex a3 = currentPrefillIndex a"
  by (auto simp: waiting_def requiredBytesFor_def ensureBuffer_def copyFrame_def copyFrameViaCanvas_def
      ensureCanvasForAsset_def Let_def split: if_splits option.splits prod.splits sum.splits)

lemma waiting_finish:
  "finishDelivery assetId t fw fh rb a ok w = (w2, effs) \<Longrightarrow>
   \<exists>a'. lookupAsset w2 assetId = Some a' \<and> waiting a a'"
  by (auto simp: finishDelivery_def waiting_def Let_def lookup_store split: if_splits prod.splits)

lemma waiting_deliver:
  assumes "deliverFrame assetId frame t lc a w = (w', effs)"
  shows "\<exists>a'. lookupAsset w' assetId = Some a' \<and> waiting a a'"
proof -
  obtain fw fh where fs: "frameSize lc frame = (fw, fh)" by (cases "frameSize lc frame")
  obtain rb a1 where r: "requiredBytesFor a frame fw fh = (rb, a1)"
    by (cases "requiredBytesFor a frame fw fh")
  obtain a2 w1 where b: "ensureBuffer rb a1 w = (a2, w1)" by (cases "ensureBuffer rb a1 w")
  obtain a3 ok ce where c: "copyFrame w1 frame fw fh a2 = (a3, ok, ce)"
    by (cases "copyFrame w1 frame fw fh a2") auto
  obtain w2 fe where f: "finishDelivery assetId t fw fh rb a3 ok w1 = (w2, fe)"
    by (cases "finishDelivery assetId t fw fh rb a3 ok w1")
  have res: "w' = w2" using assms by (simp add: deliverFrame_def fs r b c f)
  from waiting_finish[OF f] obtain a' where a': "lookupAsset w2 assetId = Some a'" "waiting a3 a'"
    by blast
  have "waiting a a'"
    using waiting_stage(1)[OF r] waiting_stage(2)[OF b] waiting_stage(3)[OF c] a'(2)
    by (simp add: waiting_def)
  then show ?thesis using a'(1) res by blast
qed

text \<open>An output that finds nothing queued, outside the warm-up drop: the frame goes through
  the copy under a synthesized index.\<close>

lemma unmatched_output:
  assumes reg: "lookupAsset w assetId = Some a"
    and empty: "decodeQueue a = []" "decodeQueueByTimestamp a (vf_timestamp frame) = None"
    and keep: "\<not> (isInitialPrefill a \<and> initialPrefillFrames a \<le> currentPrefillIndex a)"
  shows "\<exists>w' de. deliverFrame assetId frame (lc_frameIndex lc) (lc\<lparr>lc_frameIndex := Suc (lc_frameIndex lc)\<rparr>) a w = (w', de) \<and>
           decoderOutput assetId frame (lc, w) = ((lc\<lparr>lc_frameIndex := Suc (lc_frameIndex lc)\<rparr>, w'), ConsoleWarn # de)"
proof -
  have m: "matchQueueEntry a (vf_timestamp frame) = (None, a)"
    using empty by (simp add: matchQueueEntry_def matchByTimestamp_def matchByQueueHead_def)
  obtain w' de where d: "deliverFrame assetId frame (lc_frameIndex lc) (lc\<lparr>lc_frameIndex := Suc (lc_frameIndex lc)\<rparr>) a w = (w', de)"
    by (cases "deliverFrame assetId frame (lc_frameIndex lc) (lc\<lparr>lc_frameIndex := Suc (lc_frameIndex lc)\<rparr>) a w")
  have "decoderOutput assetId frame (lc, w) = ((lc\<lparr>lc_frameIndex := Suc (lc_frameIndex lc)\<rparr>, w'), ConsoleWarn # de)"
    using reg m keep d by (auto simp: decoderOutput_def Let_def)
  then show ?thesis using d by blast
qed

section \<open>Closing the frame and the cached copy method\<close>

lemma update_keeps_more:
  "decodeQueueByTimestamp (updatePresentationTimeline a) = decodeQueueByTimestamp a"
  "isInitialPrefill (updatePresentationTimeline a) = isInitialPrefill a"
  "initialPrefillFrames (updatePresentationTimeline a) = initialPrefillFrames a"
  "currentPrefillIndex (updatePresentationTimeline a) = currentPrefillIndex a"
  by (simp_all add: updatePresentationTimeline_def Let_def split: option.splits)

lemma example_prefill:
  "decodeQueueByTimestamp (assetWithSamples ss) = Map.empty"
  "isInitialPrefill (assetWithSamples ss)"
  "initialPrefillFrames (assetWithSamples ss) = 10"
  "currentPrefillIndex (assetWithSamples ss) = 0"
  by (simp_all add: assetWithSamples_def update_keeps_more newAsset_def exampleTrack_def Let_def)

text \<open>
  Claim C8. Whatever the state and the frame, the output handler closes the decoded
  frame exactly once: on delivery, on a failed copy, on a non-deliverable entry, on a
  warm-up drop and when the asset is gone.
\<close>

theorem frame_closed_once: "closeCount (snd (decoderOutput assetId frame st)) = 1"
  by (rule decoderOutput_close)

theorem frame_closed_once_witness:
  "closeCount (snd (decoderOutput ''asset#2'' (exampleFrame 0 True)
      (exampleClosure, worldWith (assetWithSamples reorderedSamples)))) = 1 \<and>
   closeCount (snd (decoderOutput ''asset#2'' (exampleFrame 0 False) (exampleClosure, exampleWorld))) = 1"
  using frame_closed_once[of "''asset#2''" "exampleFrame 0 True"
      "(exampleClosure, worldWith (assetWithSamples reorderedSamples))"]
    frame_closed_once[of "''asset#2''" "exampleFrame 0 False" "(exampleClosure, exampleWorld)"]
  by simp

lemma runOutputs_method:
  "lookupAsset w assetId = Some a \<Longrightarrow> copyMethod a = Some m \<Longrightarrow>
   (\<exists>a'. lookupAsset (snd (fst (runOutputs assetId frames (lc, w)))) assetId = Some a' \<and>
         copyMethod a' = Some m) \<and>
   (CanvasCopy \<in> set (snd (runOutputs assetId frames (lc, w))) \<longrightarrow>
      m = Canvas \<or> (\<exists>f \<in> set frames. vf_copyToFails f))"
proof (induction frames arbitrary: lc w a)
  case Nil
  then show ?case by simp
next
  case (Cons f fs)
  obtain lc1 w1 e1 where s1: "decoderOutput assetId f (lc, w) = ((lc1, w1), e1)"
    by (cases "decoderOutput assetId f (lc, w)") auto
  note st = decoderOutput_method[OF s1 Cons.prems]
  from st(1) obtain a1 where a1: "lookupAsset w1 assetId = Some a1" "copyMethod a1 = Some m" by blast
  obtain st2 e2 where s2: "runOutputs assetId fs (lc1, w1) = (st2, e2)"
    by (cases "runOutputs assetId fs (lc1, w1)")
  have r: "runOutputs assetId (f # fs) (lc, w) = (st2, e1 @ e2)" by (simp add: s1 s2)
  from Cons.IH[OF a1, of lc1] s2
  have ih: "\<exists>a'. lookupAsset (snd st2) assetId = Some a' \<and> copyMethod a' = Some m"
    "CanvasCopy \<in> set e2 \<longrightarrow> m = Canvas \<or> (\<exists>f \<in> set fs. vf_copyToFails f)"
    by simp_all
  show ?case unfolding r using ih st(2) by auto
qed

text \<open>
  Claim C6 (amended). Once a copy method is cached for a registered asset it is the cached
  method after every later decoder output. With \<open>direct\<close> cached, the canvas fallback is
  invoked on none of a run of outputs whose \<^verbatim>\<open>copyTo\<close> all succeed; it is however
  invoked on each output that reaches \<^verbatim>\<open>copyTo\<close> and whose \<^verbatim>\<open>copyTo\<close> throws, the
  cached method staying what it was.
\<close>

theorem copy_method_cached:
  "lookupAsset w assetId = Some a \<and> copyMethod a = Some m \<longrightarrow>
     methodOf (snd (fst (runOutputs assetId frames (lc, w)))) assetId = Some (Some m) \<and>
     (CanvasCopy \<in> set (snd (runOutputs assetId frames (lc, w))) \<longrightarrow>
        m = Canvas \<or> list_ex vf_copyToFails frames) \<and>
     (FrameCopyTo \<in> set (snd (decoderOutput assetId frame (lc, w))) \<and> vf_copyToFails frame \<longrightarrow>
        CanvasCopy \<in> set (snd (decoderOutput assetId frame (lc, w))))"
proof (intro impI)
  assume h: "lookupAsset w assetId = Some a \<and> copyMethod a = Some m"
  then have reg: "lookupAsset w assetId = Some a" and m: "copyMethod a = Some m" by simp_all
  note r = runOutputs_method[OF reg m, of frames lc]
  obtain lc1 w1 e1 where s1: "decoderOutput assetId frame (lc, w) = ((lc1, w1), e1)"
    by (cases "decoderOutput assetId frame (lc, w)") auto
  note st = decoderOutput_method[OF s1 reg m]
  show "methodOf (snd (fst (runOutputs assetId frames (lc, w)))) assetId = Some (Some m) \<and>
     (CanvasCopy \<in> set (snd (runOutputs assetId frames (lc, w))) \<longrightarrow>
        m = Canvas \<or> list_ex vf_copyToFails frames) \<and>
     (FrameCopyTo \<in> set (snd (decoderOutput assetId frame (lc, w))) \<and> vf_copyToFails frame \<longrightarrow>
        CanvasCopy \<in> set (snd (decoderOutput assetId frame (lc, w))))"
    using r st(3) by (auto simp: methodOf_def s1 list_ex_iff)
qed

lemma first_output:
  "\<exists>a1. lookupAsset (snd afterDirectCopy) ''asset#2'' = Some a1 \<and> copyMethod a1 = Some Direct \<and>
        waiting (assetWithSamples reorderedSamples) a1"
proof -
  let ?A = "assetWithSamples reorderedSamples"
  let ?f = "exampleFrame 0 False"
  have keep: "\<not> (isInitialPrefill ?A \<and> initialPrefillFrames ?A \<le> currentPrefillIndex ?A)"
    by (simp add: example_prefill)
  from unmatched_output[OF worldWith_lookup[of ?A] example_fields(3) _ keep, of ?f exampleClosure]
  obtain w' de where d: "deliverFrame ''asset#2'' ?f (lc_frameIndex exampleClosure)
        (exampleClosure\<lparr>lc_frameIndex := Suc (lc_frameIndex exampleClosure)\<rparr>) ?A (worldWith ?A) = (w', de)"
    and o: "decoderOutput ''asset#2'' ?f (exampleClosure, worldWith ?A) =
        ((exampleClosure\<lparr>lc_frameIndex := Suc (lc_frameIndex exampleClosure)\<rparr>, w'), ConsoleWarn # de)"
    by (auto simp: example_prefill)
  have w: "snd afterDirectCopy = w'" by (simp add: afterDirectCopy_def o)
  from deliverFrame_facts(1)[OF d] waiting_deliver[OF d]
  show ?thesis unfolding w
    by (auto simp: decidedMethod_def example_fields exampleFrame_def)
qed

theorem copy_method_cached_counterexample:
  "methodOf (snd afterDirectCopy) ''asset#2'' = Some (Some Direct) \<and>
   CanvasCopy \<in> set (snd (decoderOutput ''asset#2'' (exampleFrame 33333 True) afterDirectCopy)) \<and>
   methodOf (snd (fst (decoderOutput ''asset#2'' (exampleFrame 33333 True) afterDirectCopy))) ''asset#2''
     = Some (Some Direct)"
proof -
  let ?A = "assetWithSamples reorderedSamples"
  let ?f = "exampleFrame 33333 True"
  obtain lc1 w1 where s: "afterDirectCopy = (lc1, w1)" by (cases afterDirectCopy)
  from first_output obtain a1 where a1: "lookupAsset w1 ''asset#2'' = Some a1" "copyMethod a1 = Some Direct"
    "waiting ?A a1" by (auto simp: s)
  have empty: "decodeQueue a1 = []" "decodeQueueByTimestamp a1 (vf_timestamp ?f) = None"
    using a1(3) by (simp_all add: waiting_def example_fields example_prefill)
  have keep: "\<not> (isInitialPrefill a1 \<and> initialPrefillFrames a1 \<le> currentPrefillIndex a1)"
    using a1(3) by (simp add: waiting_def example_prefill)
  from unmatched_output[OF a1(1) empty keep, of lc1]
  obtain w' de where d: "deliverFrame ''asset#2'' ?f (lc_frameIndex lc1) (lc1\<lparr>lc_frameIndex := Suc (lc_frameIndex lc1)\<rparr>) a1 w1 = (w', de)"
    and o: "decoderOutput ''asset#2'' ?f (lc1, w1) = ((lc1\<lparr>lc_frameIndex := Suc (lc_frameIndex lc1)\<rparr>, w'), ConsoleWarn # de)"
    by blast
  note f = deliverFrame_facts[OF d]
  have c: "CanvasCopy \<in> set de" using f(3) by (simp add: exampleFrame_def)
  from f(1) have m: "methodOf w' ''asset#2'' = Some (Some Direct)"
    by (auto simp: methodOf_def decidedMethod_def a1(2))
  show ?thesis using a1(1,2) c m by (simp add: s o methodOf_def)
qed

theorem copy_method_cached_witness:
  "methodOf (snd afterDirectCopy) ''asset#2'' = Some (Some Direct) \<and>
   methodOf (snd (fst (runOutputs ''asset#2'' [exampleFrame 33333 False, exampleFrame 66667 False] afterDirectCopy)))
     ''asset#2'' = Some (Some Direct) \<and>
   CanvasCopy \<notin> set (snd (runOutputs ''asset#2'' [exampleFrame 33333 False, exampleFrame 66667 False] afterDirectCopy))"
proof -
  obtain lc1 w1 where s: "afterDirectCopy = (lc1, w1)" by (cases afterDirectCopy)
  from first_output obtain a1 where a1: "lookupAsset w1 ''asset#2'' = Some a1" "copyMethod a1 = Some Direct"
    by (auto simp: s)
  from copy_method_cached[of w1 "''asset#2''" a1 Direct "[exampleFrame 33333 False, exampleFrame 66667 False]" lc1]
    a1
  show ?thesis by (simp add: s methodOf_def exampleFrame_def)
qed

section \<open>Buckets and the flat queue\<close>

lemma filter_remove1:
  "filter P (remove1 e xs) = (if P e then remove1 e (filter P xs) else filter P xs)"
  by (induction xs) auto

lemma submitSample_buckets:
  assumes "submitSample ds ss ftd i (a, effs) = (a', effs')" and "bucketsMatchQueue a"
  shows "bucketsMatchQueue a'"
proof -
  let ?qe = "makeQueueEntry a ss ftd i"
  let ?tm = "q_timestamp ?qe"
  have q: "decodeQueue a' = decodeQueue a @ [?qe]"
    and b: "decodeQueueByTimestamp a' =
      (case decodeQueueByTimestamp a ?tm of
         Some existing \<Rightarrow> (decodeQueueByTimestamp a)(?tm \<mapsto> existing @ [?qe])
       | None \<Rightarrow> (decodeQueueByTimestamp a)(?tm \<mapsto> [?qe]))"
    using assms(1) by (auto simp: submitSample_def Let_def)
  have old: "decodeQueueByTimestamp a = bucketOf (decodeQueue a)"
    using assms(2) by (simp add: bucketsMatchQueue_def)
  have "decodeQueueByTimestamp a' ts = bucketOf (decodeQueue a') ts" for ts
    unfolding b q old by (auto simp: bucketOf_def split: option.splits if_splits)
  then show ?thesis unfolding bucketsMatchQueue_def by (rule ext)
qed

lemma fold_submit_buckets:
  "fold (submitSample ds ss ftd) is (a, effs) = (a', effs') \<Longrightarrow> bucketsMatchQueue a \<Longrightarrow>
   bucketsMatchQueue a'"
proof (induction "is" arbitrary: a' effs' rule: rev_induct)
  case Nil
  then show ?case by simp
next
  case (snoc i "is")
  obtain a1 effs1 where mid: "fold (submitSample ds ss ftd) is (a, effs) = (a1, effs1)"
    by (cases "fold (submitSample ds ss ftd) is (a, effs)")
  from snoc.prems mid have last: "submitSample ds ss ftd i (a1, effs1) = (a', effs')" by simp
  show ?case by (rule submitSample_buckets[OF last snoc.IH[OF mid snoc.prems(2)]])
qed

lemma feedBatch_ready_state:
  assumes reg: "lookupAsset w assetId = Some a" and smp: "samples a = Some ss"
    and free: "\<not> overlapsCurrentFetch a start (Finite c)"
    and ready: "hasFramesForRange a start (Finite c)"
    and bound: "\<forall>f d. js_get (frameToDecode a) f = Some d \<longrightarrow> d < length ss"
  shows "\<exists>a'.
      lookupAsset (fst (feedBatch assetId start (Finite c) w)) assetId = Some a' \<and>
      decodeQueue a' = decodeQueue a @
        map (\<lambda>(k, i). entryAt a ss [start..start + c - 1] k i)
          (enumerate 0 [keyframeIndexOf a ss start c..<Suc (maxDecodeIndexOf a start c)]) \<and>
      (bucketsMatchQueue a \<longrightarrow> bucketsMatchQueue a')"
proof -
  let ?is = "[keyframeIndexOf a ss start c..<Suc (maxDecodeIndexOf a start c)]"
  let ?a1 = "a\<lparr>pendingPrefetch := None, currentFetchRange := Some (start, start + c - 1)\<rparr>"
  let ?ftd = "[start..start + c - 1]"
  let ?ds = "decoders w (decoder a)"
  have bound': "\<And>f d. js_get (frameToDecode a) f = Some d \<Longrightarrow> d < length ss"
    using bound by blast
  obtain a2 effs where f: "fold (submitSample ?ds ss ?ftd) ?is (?a1, []) = (a2, effs)"
    by (cases "fold (submitSample ?ds ss ?ftd) ?is (?a1, [])")
  have fb: "feedBatch assetId start (Finite c) w =
      (storeAsset w assetId a2, effs @ [SetTimeout (ClearFetchRange assetId) 100])"
    using reg smp free ready ready_facts(2)[OF ready] feedBatchSubmit_ready[OF ready bound', where assetId=assetId and w=w] f
    by (simp add: feedBatch_def del: upt_Suc)
  from fold_submit[OF f] have
    q: "decodeQueue a2 = decodeQueue ?a1 @ map (\<lambda>(k, i). entryAt ?a1 ss ?ftd k i) (enumerate 0 ?is)"
    by auto
  have e: "entryAt ?a1 ss ?ftd k i = entryAt a ss ?ftd k i" for k i
    by (simp add: entryAt_def makeQueueEntry_def Let_def split: option.split)
  have 1: "lookupAsset (fst (feedBatch assetId start (Finite c) w)) assetId = Some a2"
    by (simp add: fb lookup_store)
  have 2: "decodeQueue a2 = decodeQueue a @ map (\<lambda>(k, i). entryAt a ss ?ftd k i) (enumerate 0 ?is)"
    using q by (simp add: e)
  have 3: "bucketsMatchQueue a2" if "bucketsMatchQueue a"
  proof -
    have "bucketsMatchQueue ?a1" using that by (simp add: bucketsMatchQueue_def)
    then show ?thesis by (rule fold_submit_buckets[OF f])
  qed
  show ?thesis using 1 2 3 by blast
qed

section \<open>What the batch feeder leaves alone\<close>

lemma fold_submit_delivery:
  "fold (submitSample ds ss ftd) is (a, effs) = (a', effs') \<Longrightarrow> sameDelivery a a'"
proof (induction "is" arbitrary: a effs)
  case Nil
  then show ?case by (simp add: sameDelivery_def)
next
  case (Cons i "is")
  obtain a1 effs1 where s: "submitSample ds ss ftd i (a, effs) = (a1, effs1)"
    by (cases "submitSample ds ss ftd i (a, effs)")
  have 1: "sameDelivery a a1"
    using s by (auto simp: submitSample_def Let_def sameDelivery_def)
  have "sameDelivery a1 a'" using Cons.IH[of a1 effs1] Cons.prems s by simp
  then show ?case using 1 by (simp add: sameDelivery_def)
qed

lemma feedBatchSubmit_keeps:
  "\<exists>a'. feedBatchSubmit assetId start c a ss w = (storeAsset w assetId a', snd (feedBatchSubmit assetId start c a ss w)) \<and>
        sameDelivery a a'"
proof -
  let ?a = "a\<lparr>pendingPrefetch := None\<rparr>"
  let ?e = "min (start + c) (int (length (frameToDecode ?a)))"
  let ?ftd = "filter (\<lambda>frame. js_get_int (frameToDecode ?a) frame \<noteq> None) [start..?e - 1]"
  let ?dis = "List.map_filter (js_get_int (frameToDecode ?a)) [start..?e - 1]"
  let ?a1 = "?a\<lparr>currentFetchRange := Some (start, ?e - 1)\<rparr>"
  let ?is = "[findKeyframeIndex ss (minOfList ?dis)..<min (maxOfList ?dis + 1) (length ss)]"
  obtain a2 effs where f: "fold (submitSample (decoders w (decoder ?a)) ss ?ftd) ?is (?a1, []) = (a2, effs)"
    by (cases "fold (submitSample (decoders w (decoder ?a)) ss ?ftd) ?is (?a1, [])")
  have d: "sameDelivery a a2"
    using fold_submit_delivery[OF f] by (simp add: sameDelivery_def)
  show ?thesis
  proof (cases "?dis = []")
    case True
    then show ?thesis
      unfolding feedBatchSubmit_def Let_def by (auto simp: sameDelivery_def)
  next
    case False
    then have "feedBatchSubmit assetId start c a ss w =
        (storeAsset w assetId a2, effs @ [SetTimeout (ClearFetchRange assetId) 100])"
      unfolding feedBatchSubmit_def Let_def using f by (simp del: upt_Suc)
    then show ?thesis using d by auto
  qed
qed

lemma feedBatch_keeps:
  assumes "lookupAsset w assetId = Some a"
  shows "\<exists>a'. lookupAsset (fst (feedBatch assetId start cnt w)) assetId = Some a' \<and> sameDelivery a a' \<and>
              preparation (fst (feedBatch assetId start cnt w)) = preparation w"
proof -
  have keep: "\<exists>a'. lookupAsset w' assetId = Some a' \<and> sameDelivery a a' \<and> preparation w' = preparation w"
    if "w' = w \<or> (\<exists>a'. w' = storeAsset w assetId a' \<and> sameDelivery a a')" for w'
  proof -
    have p: "preparation (storeAsset w assetId x) = preparation w" for x
      by (simp add: storeAsset_def)
    have "sameDelivery a a" by (simp add: sameDelivery_def)
    then show ?thesis using that assms p by (auto simp: lookup_store)
  qed
  have "fst (feedBatch assetId start cnt w) = w \<or>
        (\<exists>a'. fst (feedBatch assetId start cnt w) = storeAsset w assetId a' \<and> sameDelivery a a')"
  proof (cases "\<exists>ss c. samples a = Some ss \<and> cnt = Finite c \<and> \<not> overlapsCurrentFetch a start cnt \<and>
                  frameToDecode a \<noteq> [] \<and> hasFramesForRange a start cnt")
    case True
    then obtain ss c where h: "samples a = Some ss" "cnt = Finite c" "\<not> overlapsCurrentFetch a start cnt"
      "frameToDecode a \<noteq> []" "hasFramesForRange a start cnt" by blast
    have "feedBatch assetId start cnt w = feedBatchSubmit assetId start c a ss w"
      using assms h by (simp add: feedBatch_def)
    then show ?thesis using feedBatchSubmit_keeps[of assetId start c a ss w] by (metis fst_conv)
  next
    case False
    then show ?thesis
      using assms
      by (auto simp: feedBatch_def sameDelivery_def split: option.splits number.splits)
  qed
  then show ?thesis by (rule keep)
qed

section \<open>The matcher\<close>

lemma match_bucket:
  assumes "decodeQueueByTimestamp a ts = Some (e # rest)"
  shows "matchQueueEntry a ts =
           (Some e, a\<lparr>decodeQueueByTimestamp :=
                         (if rest = [] then (decodeQueueByTimestamp a)(ts := None)
                          else (decodeQueueByTimestamp a)(ts \<mapsto> rest)),
                      decodeQueue := remove1 e (decodeQueue a)\<rparr>)"
  using assms by (simp add: matchQueueEntry_def matchByTimestamp_def)

lemma match_head:
  assumes "decodeQueueByTimestamp a ts = None \<or> decodeQueueByTimestamp a ts = Some []"
    and "decodeQueue a = e # rest"
  shows "matchQueueEntry a ts =
           (Some e, a\<lparr>decodeQueue := rest,
                      decodeQueueByTimestamp :=
                        (case decodeQueueByTimestamp a (q_timestamp e) of
                           None \<Rightarrow> decodeQueueByTimestamp a
                         | Some entries \<Rightarrow>
                             (if remove1 e entries = []
                              then (decodeQueueByTimestamp a)(q_timestamp e := None)
                              else (decodeQueueByTimestamp a)(q_timestamp e \<mapsto> remove1 e entries)))\<rparr>)"
  using assms by (auto simp: matchQueueEntry_def matchByTimestamp_def matchByQueueHead_def)

lemma match_none:
  assumes "decodeQueueByTimestamp a ts = None \<or> decodeQueueByTimestamp a ts = Some []"
    and "decodeQueue a = []"
  shows "matchQueueEntry a ts = (None, a)"
  using assms by (auto simp: matchQueueEntry_def matchByTimestamp_def matchByQueueHead_def)

lemma match_keeps_buckets:
  assumes "bucketsMatchQueue a"
  shows "bucketsMatchQueue (snd (matchQueueEntry a ts))"
proof -
  have old: "decodeQueueByTimestamp a = bucketOf (decodeQueue a)"
    using assms by (simp add: bucketsMatchQueue_def)
  show ?thesis
  proof (cases "decodeQueueByTimestamp a ts")
    case None
    show ?thesis
    proof (cases "decodeQueue a")
      case Nil
      then show ?thesis using match_none[of a ts] None assms by simp
    next
      case (Cons e rest)
      have "decodeQueueByTimestamp (snd (matchQueueEntry a ts)) t =
            bucketOf (decodeQueue (snd (matchQueueEntry a ts))) t" for t
        unfolding match_head[OF disjI1[OF None] Cons] snd_conv
        by (auto simp: old Cons bucketOf_def split: option.splits if_splits)
      then show ?thesis unfolding bucketsMatchQueue_def by (rule ext)
    qed
  next
    case (Some es)
    then have es: "es = filter (\<lambda>e. q_timestamp e = ts) (decodeQueue a)" "es \<noteq> []"
      unfolding old by (auto simp: bucketOf_def split: if_splits)
    obtain e rest where er: "es = e # rest" using es(2) by (cases es) auto
    have te: "q_timestamp e = ts"
    proof -
      have "e \<in> set es" using er by simp
      then have "e \<in> set (filter (\<lambda>e. q_timestamp e = ts) (decodeQueue a))"
        by (simp only: es(1)[symmetric])
      then show ?thesis by simp
    qed
    have "decodeQueueByTimestamp (snd (matchQueueEntry a ts)) t =
          bucketOf (decodeQueue (snd (matchQueueEntry a ts))) t" for t
      unfolding match_bucket[OF Some[unfolded er]] snd_conv
      using es(1)[unfolded er, symmetric] te
      by (auto simp: old bucketOf_def filter_remove1 split: if_splits)
    then show ?thesis unfolding bucketsMatchQueue_def by (rule ext)
  qed
qed

lemma deliveredIndex_simps [simp]:
  "deliveredIndex (OnPrefetchFrame i f p x y) = Some f"
  "deliveredIndex ConsoleWarn = None" "deliveredIndex ConsoleError = None"
  "deliveredIndex FrameClose = None" "deliveredIndex FrameCopyTo = None"
  "deliveredIndex CanvasCopy = None" "deliveredIndex Render = None"
  by (simp_all add: deliveredIndex_def)

lemma map_filter_append: "List.map_filter f (xs @ ys) = List.map_filter f xs @ List.map_filter f ys"
  by (simp add: List.map_filter_def)

lemma copyFrame_delivers_nothing:
  "copyFrame w frame wd ht a = (a', ok, effs) \<Longrightarrow> List.map_filter deliveredIndex effs = []"
  by (auto simp: copyFrame_def Let_def List.map_filter_simps split: if_splits sum.splits)

lemma finishDelivery_index:
  "finishDelivery assetId t fw fh rb a ok w = (w2, effs) \<Longrightarrow>
   set (List.map_filter deliveredIndex effs) \<subseteq> {t}"
  by (auto simp: finishDelivery_def Let_def List.map_filter_simps split: if_splits prod.splits)

lemma deliverFrame_index:
  assumes "deliverFrame assetId frame t lc a w = (w', effs)"
  shows "set (List.map_filter deliveredIndex effs) \<subseteq> {t}"
proof -
  obtain fw fh where fs: "frameSize lc frame = (fw, fh)" by (cases "frameSize lc frame")
  obtain rb a1 where r: "requiredBytesFor a frame fw fh = (rb, a1)"
    by (cases "requiredBytesFor a frame fw fh")
  obtain a2 w1 where b: "ensureBuffer rb a1 w = (a2, w1)" by (cases "ensureBuffer rb a1 w")
  obtain a3 ok ce where c: "copyFrame w1 frame fw fh a2 = (a3, ok, ce)"
    by (cases "copyFrame w1 frame fw fh a2") auto
  obtain w2 fe where f: "finishDelivery assetId t fw fh rb a3 ok w1 = (w2, fe)"
    by (cases "finishDelivery assetId t fw fh rb a3 ok w1")
  have res: "effs = ce @ fe" using assms by (simp add: deliverFrame_def fs r b c f)
  show ?thesis
    unfolding res map_filter_append copyFrame_delivers_nothing[OF c]
    using finishDelivery_index[OF f] by simp
qed

lemma unmatched_index:
  assumes reg: "lookupAsset w assetId = Some a"
    and empty: "decodeQueueByTimestamp a (vf_timestamp frame) = None \<or>
                decodeQueueByTimestamp a (vf_timestamp frame) = Some []" "decodeQueue a = []"
  shows "lc_frameIndex (fst (fst (decoderOutput assetId frame (lc, w)))) = Suc (lc_frameIndex lc)"
    and "set (List.map_filter deliveredIndex (snd (decoderOutput assetId frame (lc, w)))) \<subseteq> {lc_frameIndex lc}"
proof -
  let ?lc = "lc\<lparr>lc_frameIndex := Suc (lc_frameIndex lc)\<rparr>"
  have m: "matchQueueEntry a (vf_timestamp frame) = (None, a)"
    by (rule match_none[OF empty])
  obtain w' de where d: "deliverFrame assetId frame (lc_frameIndex lc) ?lc a w = (w', de)"
    by (cases "deliverFrame assetId frame (lc_frameIndex lc) ?lc a w")
  have o: "decoderOutput assetId frame (lc, w) =
      (if isInitialPrefill a \<and> initialPrefillFrames a \<le> currentPrefillIndex a
       then ((?lc, storeAsset w assetId a), [ConsoleWarn, FrameClose])
       else ((?lc, w'), ConsoleWarn # de))"
    using reg m d by (simp add: decoderOutput_def Let_def)
  show "lc_frameIndex (fst (fst (decoderOutput assetId frame (lc, w)))) = Suc (lc_frameIndex lc)"
    by (simp add: o)
  show "set (List.map_filter deliveredIndex (snd (decoderOutput assetId frame (lc, w)))) \<subseteq> {lc_frameIndex lc}"
    using deliverFrame_index[OF d] by (simp add: o List.map_filter_simps)
qed

lemma copyFrame_outcome:
  assumes "copyFrame w frame wd ht a = (a', ok, effs)"
  shows "ConsoleError \<in> set effs \<longleftrightarrow> \<not> ok"
    and "copyMethod a \<noteq> Some Canvas \<Longrightarrow> \<not> vf_copyToFails frame \<Longrightarrow> ok"
proof -
  show "ConsoleError \<in> set effs \<longleftrightarrow> \<not> ok"
    using assms by (auto simp: copyFrame_def Let_def split: if_splits sum.splits)
  show "copyMethod a \<noteq> Some Canvas \<Longrightarrow> \<not> vf_copyToFails frame \<Longrightarrow> ok"
    using assms by (auto simp: copyFrame_def Let_def split: if_splits sum.splits)
qed

lemma finishDelivery_outcome:
  assumes "finishDelivery assetId t fw fh rb a ok w = (w2, effs)"
  shows "List.map_filter deliveredIndex effs = (if ok then [t] else [])"
    and "ConsoleError \<in> set effs \<longleftrightarrow> \<not> ok"
proof -
  show "List.map_filter deliveredIndex effs = (if ok then [t] else [])"
    using assms
    by (auto simp: finishDelivery_def Let_def List.map_filter_simps split: if_splits prod.splits)
  show "ConsoleError \<in> set effs \<longleftrightarrow> \<not> ok"
    using assms
    by (auto simp: finishDelivery_def Let_def split: if_splits prod.splits)
qed

lemma deliverFrame_outcome:
  assumes "deliverFrame assetId frame t lc a w = (w', effs)"
  shows "List.map_filter deliveredIndex effs = (if ConsoleError \<in> set effs then [] else [t])"
    and "copyMethod a \<noteq> Some Canvas \<Longrightarrow> \<not> vf_copyToFails frame \<Longrightarrow> ConsoleError \<notin> set effs"
proof -
  obtain fw fh where fs: "frameSize lc frame = (fw, fh)" by (cases "frameSize lc frame")
  obtain rb a1 where r: "requiredBytesFor a frame fw fh = (rb, a1)"
    by (cases "requiredBytesFor a frame fw fh")
  obtain a2 w1 where b: "ensureBuffer rb a1 w = (a2, w1)" by (cases "ensureBuffer rb a1 w")
  obtain a3 ok ce where c: "copyFrame w1 frame fw fh a2 = (a3, ok, ce)"
    by (cases "copyFrame w1 frame fw fh a2") auto
  obtain w2 fe where f: "finishDelivery assetId t fw fh rb a3 ok w1 = (w2, fe)"
    by (cases "finishDelivery assetId t fw fh rb a3 ok w1")
  have res: "effs = ce @ fe" using assms by (simp add: deliverFrame_def fs r b c f)
  have m: "copyMethod a2 = copyMethod a"
    using requiredBytes_method[OF r] ensureBuffer_method[OF b] by simp
  note co = copyFrame_outcome[OF c, unfolded m]
  note fo = finishDelivery_outcome[OF f]
  show "List.map_filter deliveredIndex effs = (if ConsoleError \<in> set effs then [] else [t])"
    unfolding res map_filter_append copyFrame_delivers_nothing[OF c]
    using co(1) fo by simp
  show "copyMethod a \<noteq> Some Canvas \<Longrightarrow> \<not> vf_copyToFails frame \<Longrightarrow> ConsoleError \<notin> set effs"
    unfolding res using co fo(2) by auto
qed

lemma match_keeps_warmup:
  assumes "matchQueueEntry a ts = (qe, a')"
  shows "isInitialPrefill a' = isInitialPrefill a"
    and "initialPrefillFrames a' = initialPrefillFrames a"
    and "currentPrefillIndex a' = currentPrefillIndex a"
  using assms
  by (auto simp: matchQueueEntry_def matchByTimestamp_def matchByQueueHead_def
      split: option.splits list.splits prod.splits if_splits)

text \<open>An output that the matcher attributes to a queue entry.\<close>

lemma decoderOutput_matched:
  assumes reg: "lookupAsset w assetId = Some a0"
    and m: "matchQueueEntry a0 (vf_timestamp frame) = (Some e, a)"
  shows "\<exists>lc' w' effs a'.
      decoderOutput assetId frame (lc, w) = ((lc', w'), effs) \<and>
      lc_frameIndex lc' = max (lc_frameIndex lc) (Suc (targetOf e)) \<and>
      lookupAsset w' assetId = Some a' \<and> waiting a a' \<and>
      (copyMethod a0 \<noteq> Some Canvas \<and> \<not> vf_copyToFails frame \<longrightarrow> copyMethod a' \<noteq> Some Canvas) \<and>
      List.map_filter deliveredIndex effs =
        (if q_deliver e \<and> \<not> warmUpFull a0 \<and> ConsoleError \<notin> set effs then [targetOf e] else []) \<and>
      (copyMethod a0 \<noteq> Some Canvas \<and> \<not> vf_copyToFails frame \<longrightarrow> ConsoleError \<notin> set effs)"
proof -
  let ?t = "targetOf e"
  let ?lc = "lc\<lparr>lc_frameIndex := max (lc_frameIndex lc) (?t + 1)\<rparr>"
  note cm = matchQueueEntry_method[OF m]
  have wu: "warmUpFull a = warmUpFull a0"
    using match_keeps_warmup[OF m] by (simp add: warmUpFull_def)
  show ?thesis
  proof (cases "\<not> q_deliver e \<or> warmUpFull a0")
    case True
    then have o: "decoderOutput assetId frame (lc, w) = ((?lc, storeAsset w assetId a), [FrameClose])"
      using reg m wu by (auto simp: decoderOutput_def Let_def targetOf_def warmUpFull_def)
    have "waiting a a" by (simp add: waiting_def)
    then show ?thesis
      using o True cm by (auto simp: lookup_store List.map_filter_simps)
  next
    case False
    obtain wd de where d: "deliverFrame assetId frame ?t ?lc a w = (wd, de)"
      by (cases "deliverFrame assetId frame ?t ?lc a w")
    have o: "decoderOutput assetId frame (lc, w) = ((?lc, wd), de)"
      using reg m wu False d by (auto simp: decoderOutput_def Let_def targetOf_def warmUpFull_def)
    from waiting_deliver[OF d] obtain a' where a': "lookupAsset wd assetId = Some a'" "waiting a a'"
      by blast
    from deliverFrame_facts(1)[OF d] a'(1)
    have cm': "copyMethod a' = decidedMethod (copyMethod a) frame" by simp
    have nc: "copyMethod a0 \<noteq> Some Canvas \<and> \<not> vf_copyToFails frame \<longrightarrow> copyMethod a' \<noteq> Some Canvas"
      unfolding cm' cm by (auto simp: decidedMethod_def split: option.splits)
    note dl = deliverFrame_outcome[OF d, unfolded cm]
    show ?thesis
      using o a' nc dl False by auto
  qed
qed

lemma output_from_bucket:
  assumes reg: "lookupAsset w assetId = Some a"
    and b: "decodeQueueByTimestamp a (vf_timestamp frame) = Some (e # rest)"
  shows "\<exists>lc' w' effs a'.
      decoderOutput assetId frame (lc, w) = ((lc', w'), effs) \<and>
      lc_frameIndex lc' = max (lc_frameIndex lc) (Suc (targetOf e)) \<and>
      lookupAsset w' assetId = Some a' \<and>
      decodeQueue a' = remove1 e (decodeQueue a) \<and>
      decodeQueueByTimestamp a' =
        (decodeQueueByTimestamp a)(vf_timestamp frame := (if rest = [] then None else Some rest)) \<and>
      isInitialPrefill a' = isInitialPrefill a \<and> initialPrefillFrames a' = initialPrefillFrames a \<and>
      currentPrefillIndex a' \<le> Suc (currentPrefillIndex a) \<and>
      (copyMethod a \<noteq> Some Canvas \<and> \<not> vf_copyToFails frame \<longrightarrow> copyMethod a' \<noteq> Some Canvas) \<and>
      List.map_filter deliveredIndex effs =
        (if q_deliver e \<and> \<not> warmUpFull a \<and> ConsoleError \<notin> set effs then [targetOf e] else []) \<and>
      (copyMethod a \<noteq> Some Canvas \<and> \<not> vf_copyToFails frame \<longrightarrow> ConsoleError \<notin> set effs)"
proof -
  let ?a1 = "a\<lparr>decodeQueueByTimestamp :=
                 (if rest = [] then (decodeQueueByTimestamp a)(vf_timestamp frame := None)
                  else (decodeQueueByTimestamp a)(vf_timestamp frame \<mapsto> rest)),
               decodeQueue := remove1 e (decodeQueue a)\<rparr>"
  have m: "matchQueueEntry a (vf_timestamp frame) = (Some e, ?a1)" by (rule match_bucket[OF b])
  from decoderOutput_matched[OF reg m, of lc]
  obtain lc' w' effs a' where r:
    "decoderOutput assetId frame (lc, w) = ((lc', w'), effs)"
    "lc_frameIndex lc' = max (lc_frameIndex lc) (Suc (targetOf e))"
    "lookupAsset w' assetId = Some a'" "waiting ?a1 a'"
    "copyMethod a \<noteq> Some Canvas \<and> \<not> vf_copyToFails frame \<longrightarrow> copyMethod a' \<noteq> Some Canvas"
    "List.map_filter deliveredIndex effs =
        (if q_deliver e \<and> \<not> warmUpFull a \<and> ConsoleError \<notin> set effs then [targetOf e] else [])"
    "copyMethod a \<noteq> Some Canvas \<and> \<not> vf_copyToFails frame \<longrightarrow> ConsoleError \<notin> set effs"
    by blast
  have q: "decodeQueue a' = remove1 e (decodeQueue a)"
    "decodeQueueByTimestamp a' =
        (decodeQueueByTimestamp a)(vf_timestamp frame := (if rest = [] then None else Some rest))"
    "isInitialPrefill a' = isInitialPrefill a" "initialPrefillFrames a' = initialPrefillFrames a"
    "currentPrefillIndex a' \<le> Suc (currentPrefillIndex a)"
    using r(4) by (auto simp: waiting_def)
  show ?thesis
    using r(1,2,3,5,6,7) q by blast
qed

lemma output_from_head:
  assumes reg: "lookupAsset w assetId = Some a"
    and n: "decodeQueueByTimestamp a (vf_timestamp frame) = None \<or>
            decodeQueueByTimestamp a (vf_timestamp frame) = Some []"
    and h: "decodeQueue a = e # rest"
  shows "\<exists>lc' w' effs a'.
      decoderOutput assetId frame (lc, w) = ((lc', w'), effs) \<and>
      lc_frameIndex lc' = max (lc_frameIndex lc) (Suc (targetOf e)) \<and>
      lookupAsset w' assetId = Some a' \<and>
      decodeQueue a' = rest \<and>
      decodeQueueByTimestamp a' =
        (case decodeQueueByTimestamp a (q_timestamp e) of
           None \<Rightarrow> decodeQueueByTimestamp a
         | Some entries \<Rightarrow>
             (decodeQueueByTimestamp a)
               (q_timestamp e := (if remove1 e entries = [] then None
                                  else Some (remove1 e entries)))) \<and>
      List.map_filter deliveredIndex effs =
        (if q_deliver e \<and> \<not> warmUpFull a \<and> ConsoleError \<notin> set effs then [targetOf e] else []) \<and>
      (copyMethod a \<noteq> Some Canvas \<and> \<not> vf_copyToFails frame \<longrightarrow> ConsoleError \<notin> set effs)"
proof -
  let ?a1 = "a\<lparr>decodeQueue := rest,
                decodeQueueByTimestamp :=
                  (case decodeQueueByTimestamp a (q_timestamp e) of
                     None \<Rightarrow> decodeQueueByTimestamp a
                   | Some entries \<Rightarrow>
                       (if remove1 e entries = []
                        then (decodeQueueByTimestamp a)(q_timestamp e := None)
                        else (decodeQueueByTimestamp a)(q_timestamp e \<mapsto> remove1 e entries)))\<rparr>"
  have m: "matchQueueEntry a (vf_timestamp frame) = (Some e, ?a1)" by (rule match_head[OF n h])
  from decoderOutput_matched[OF reg m, of lc]
  obtain lc' w' effs a' where r:
    "decoderOutput assetId frame (lc, w) = ((lc', w'), effs)"
    "lc_frameIndex lc' = max (lc_frameIndex lc) (Suc (targetOf e))"
    "lookupAsset w' assetId = Some a'" "waiting ?a1 a'"
    "List.map_filter deliveredIndex effs =
        (if q_deliver e \<and> \<not> warmUpFull a \<and> ConsoleError \<notin> set effs then [targetOf e] else [])"
    "copyMethod a \<noteq> Some Canvas \<and> \<not> vf_copyToFails frame \<longrightarrow> ConsoleError \<notin> set effs"
    by blast
  have q: "decodeQueue a' = rest"
    "decodeQueueByTimestamp a' =
        (case decodeQueueByTimestamp a (q_timestamp e) of
           None \<Rightarrow> decodeQueueByTimestamp a
         | Some entries \<Rightarrow>
             (decodeQueueByTimestamp a)
               (q_timestamp e := (if remove1 e entries = [] then None
                                  else Some (remove1 e entries))))"
    using r(4) by (auto simp: waiting_def split: option.splits)
  show ?thesis
    using r(1,2,3,5,6) q by blast
qed

text \<open>Two outputs with the timestamp of a bucket that holds two entries. The handler
  matches before its only \<^verbatim>\<open>await\<close>, so the entry that an output is attributed to is
  fixed by the order in which the outputs arrive; \<open>runOutputs\<close> runs the handlers one after
  the other.\<close>

lemma two_outputs:
  assumes reg: "lookupAsset w assetId = Some a"
    and b: "decodeQueueByTimestamp a ts = Some (e # e2 # rest)"
    and t: "vf_timestamp f1 = ts" "vf_timestamp f2 = ts"
  shows "\<exists>a'. lookupAsset (snd (fst (runOutputs assetId [f1, f2] (lc, w)))) assetId = Some a' \<and>
              decodeQueue a' = remove1 e2 (remove1 e (decodeQueue a)) \<and>
              decodeQueueByTimestamp a' ts = (if rest = [] then None else Some rest)"
    and "q_deliver e \<and> q_deliver e2 \<and>
         (isInitialPrefill a \<longrightarrow> Suc (currentPrefillIndex a) < initialPrefillFrames a) \<and>
         copyMethod a \<noteq> Some Canvas \<and> \<not> vf_copyToFails f1 \<and> \<not> vf_copyToFails f2 \<Longrightarrow>
         List.map_filter deliveredIndex (snd (runOutputs assetId [f1, f2] (lc, w))) =
           [targetOf e, targetOf e2]"
proof -
  from output_from_bucket[OF reg b[folded t(1)], of lc]
  obtain lc1 w1 effs1 a1 where r1:
    "decoderOutput assetId f1 (lc, w) = ((lc1, w1), effs1)"
    "lookupAsset w1 assetId = Some a1"
    "decodeQueue a1 = remove1 e (decodeQueue a)"
    "decodeQueueByTimestamp a1 = (decodeQueueByTimestamp a)(vf_timestamp f1 := Some (e2 # rest))"
    "isInitialPrefill a1 = isInitialPrefill a" "initialPrefillFrames a1 = initialPrefillFrames a"
    "currentPrefillIndex a1 \<le> Suc (currentPrefillIndex a)"
    "copyMethod a \<noteq> Some Canvas \<and> \<not> vf_copyToFails f1 \<longrightarrow> copyMethod a1 \<noteq> Some Canvas"
    "List.map_filter deliveredIndex effs1 =
        (if q_deliver e \<and> \<not> warmUpFull a \<and> ConsoleError \<notin> set effs1 then [targetOf e] else [])"
    "copyMethod a \<noteq> Some Canvas \<and> \<not> vf_copyToFails f1 \<longrightarrow> ConsoleError \<notin> set effs1"
    by auto
  have b1: "decodeQueueByTimestamp a1 (vf_timestamp f2) = Some (e2 # rest)"
    using r1(4) t by simp
  from output_from_bucket[OF r1(2) b1, of lc1]
  obtain lc2 w2 effs2 a2 where r2:
    "decoderOutput assetId f2 (lc1, w1) = ((lc2, w2), effs2)"
    "lookupAsset w2 assetId = Some a2"
    "decodeQueue a2 = remove1 e2 (decodeQueue a1)"
    "decodeQueueByTimestamp a2 = (decodeQueueByTimestamp a1)(vf_timestamp f2 := (if rest = [] then None else Some rest))"
    "List.map_filter deliveredIndex effs2 =
        (if q_deliver e2 \<and> \<not> warmUpFull a1 \<and> ConsoleError \<notin> set effs2 then [targetOf e2] else [])"
    "copyMethod a1 \<noteq> Some Canvas \<and> \<not> vf_copyToFails f2 \<longrightarrow> ConsoleError \<notin> set effs2"
    by auto
  have run: "runOutputs assetId [f1, f2] (lc, w) = ((lc2, w2), effs1 @ effs2)"
    by (simp add: r1(1) r2(1))
  show "\<exists>a'. lookupAsset (snd (fst (runOutputs assetId [f1, f2] (lc, w)))) assetId = Some a' \<and>
              decodeQueue a' = remove1 e2 (remove1 e (decodeQueue a)) \<and>
              decodeQueueByTimestamp a' ts = (if rest = [] then None else Some rest)"
    unfolding run using r2(2,3,4) r1(3) t by simp
  assume c: "q_deliver e \<and> q_deliver e2 \<and>
         (isInitialPrefill a \<longrightarrow> Suc (currentPrefillIndex a) < initialPrefillFrames a) \<and>
         copyMethod a \<noteq> Some Canvas \<and> \<not> vf_copyToFails f1 \<and> \<not> vf_copyToFails f2"
  have w0: "\<not> warmUpFull a" using c by (auto simp: warmUpFull_def)
  have w1: "\<not> warmUpFull a1" using c r1(5,6,7) by (auto simp: warmUpFull_def)
  show "List.map_filter deliveredIndex (snd (runOutputs assetId [f1, f2] (lc, w))) =
           [targetOf e, targetOf e2]"
    unfolding run snd_conv map_filter_append
    using c w0 w1 r1(8,9,10) r2(5,6) by simp
qed

text \<open>
  Claim C4. The matcher attributes an output with timestamp \<open>ts\<close> in this order. If the
  bucket of \<open>ts\<close> is non-empty, its first entry is the match, the bucket keeps the rest
  (and is deleted when nothing is left), and the entry leaves the flat queue. Otherwise,
  if the flat queue is non-empty, its head is the match, the queue keeps the rest, and the
  entry leaves the bucket of its own timestamp. Otherwise nothing is matched, the asset
  is unchanged, and the output handler takes the next sequential frame index: the counter
  moves on by one and only that index can be delivered. When a bucket starts with two
  entries, two outputs with its timestamp match the first and then the second. The
  buckets stay the per-timestamp sublists of the flat queue.

  The output handler acts on that match. For an output whose timestamp has a non-empty
  bucket, and for one that falls back on the queue head, the asset registered after the
  handler has the queue and the buckets without the matched entry, the frame counter is
  raised past the entry's frame index, and the frame is delivered under the entry's
  frame index and no other: under exactly that index when the entry is deliverable, the
  warm-up is not full and the copy does not fail, and not at all otherwise. A run of
  two outputs with the timestamp of a bucket that starts with two entries removes both
  from the queue and, when both are deliverable and the direct copy succeeds, delivers
  the frame index of the first and then that of the second.
\<close>

theorem matcher_order:
  "(decodeQueueByTimestamp a ts = Some (e # rest) \<longrightarrow>
      fst (matchQueueEntry a ts) = Some e \<and>
      decodeQueueByTimestamp (snd (matchQueueEntry a ts)) ts = (if rest = [] then None else Some rest) \<and>
      decodeQueue (snd (matchQueueEntry a ts)) = remove1 e (decodeQueue a)) \<and>
   ((decodeQueueByTimestamp a ts = None \<or> decodeQueueByTimestamp a ts = Some []) \<and>
    decodeQueue a = e # rest \<longrightarrow>
      fst (matchQueueEntry a ts) = Some e \<and>
      decodeQueue (snd (matchQueueEntry a ts)) = rest \<and>
      decodeQueueByTimestamp (snd (matchQueueEntry a ts)) (q_timestamp e) =
        (case decodeQueueByTimestamp a (q_timestamp e) of
           None \<Rightarrow> None
         | Some entries \<Rightarrow> if remove1 e entries = [] then None else Some (remove1 e entries))) \<and>
   ((decodeQueueByTimestamp a ts = None \<or> decodeQueueByTimestamp a ts = Some []) \<and>
    decodeQueue a = [] \<longrightarrow>
      matchQueueEntry a ts = (None, a)) \<and>
   (lookupAsset w assetId = Some a \<and>
    (decodeQueueByTimestamp a (vf_timestamp frame) = None \<or>
     decodeQueueByTimestamp a (vf_timestamp frame) = Some []) \<and>
    decodeQueue a = [] \<longrightarrow>
      lc_frameIndex (fst (fst (decoderOutput assetId frame (lc, w)))) = Suc (lc_frameIndex lc) \<and>
      set (List.map_filter deliveredIndex (snd (decoderOutput assetId frame (lc, w))))
        \<subseteq> {lc_frameIndex lc}) \<and>
   (decodeQueueByTimestamp a ts = Some (e # e2 # rest) \<longrightarrow>
      fst (matchQueueEntry a ts) = Some e \<and>
      fst (matchQueueEntry (snd (matchQueueEntry a ts)) ts) = Some e2) \<and>
   (bucketsMatchQueue a \<longrightarrow> bucketsMatchQueue (snd (matchQueueEntry a ts))) \<and>
   (lookupAsset w assetId = Some a \<and>
    decodeQueueByTimestamp a (vf_timestamp frame) = Some (e # rest) \<longrightarrow>
      (\<exists>a'. lookupAsset (snd (fst (decoderOutput assetId frame (lc, w)))) assetId = Some a' \<and>
            decodeQueue a' = remove1 e (decodeQueue a) \<and>
            decodeQueueByTimestamp a' =
              (decodeQueueByTimestamp a)
                (vf_timestamp frame := (if rest = [] then None else Some rest))) \<and>
      lc_frameIndex (fst (fst (decoderOutput assetId frame (lc, w)))) =
        max (lc_frameIndex lc) (Suc (targetOf e)) \<and>
      List.map_filter deliveredIndex (snd (decoderOutput assetId frame (lc, w))) =
        (if q_deliver e \<and> \<not> warmUpFull a \<and>
            ConsoleError \<notin> set (snd (decoderOutput assetId frame (lc, w)))
         then [targetOf e] else []) \<and>
      (copyMethod a \<noteq> Some Canvas \<and> \<not> vf_copyToFails frame \<longrightarrow>
         ConsoleError \<notin> set (snd (decoderOutput assetId frame (lc, w))))) \<and>
   (lookupAsset w assetId = Some a \<and>
    (decodeQueueByTimestamp a (vf_timestamp frame) = None \<or>
     decodeQueueByTimestamp a (vf_timestamp frame) = Some []) \<and>
    decodeQueue a = e # rest \<longrightarrow>
      (\<exists>a'. lookupAsset (snd (fst (decoderOutput assetId frame (lc, w)))) assetId = Some a' \<and>
            decodeQueue a' = rest \<and>
            decodeQueueByTimestamp a' =
              (case decodeQueueByTimestamp a (q_timestamp e) of
                 None \<Rightarrow> decodeQueueByTimestamp a
               | Some entries \<Rightarrow>
                   (decodeQueueByTimestamp a)
                     (q_timestamp e := (if remove1 e entries = [] then None
                                        else Some (remove1 e entries))))) \<and>
      lc_frameIndex (fst (fst (decoderOutput assetId frame (lc, w)))) =
        max (lc_frameIndex lc) (Suc (targetOf e)) \<and>
      List.map_filter deliveredIndex (snd (decoderOutput assetId frame (lc, w))) =
        (if q_deliver e \<and> \<not> warmUpFull a \<and>
            ConsoleError \<notin> set (snd (decoderOutput assetId frame (lc, w)))
         then [targetOf e] else []) \<and>
      (copyMethod a \<noteq> Some Canvas \<and> \<not> vf_copyToFails frame \<longrightarrow>
         ConsoleError \<notin> set (snd (decoderOutput assetId frame (lc, w))))) \<and>
   (lookupAsset w assetId = Some a \<and> decodeQueueByTimestamp a ts = Some (e # e2 # rest) \<and>
    vf_timestamp f1 = ts \<and> vf_timestamp f2 = ts \<longrightarrow>
      (\<exists>a'. lookupAsset (snd (fst (runOutputs assetId [f1, f2] (lc, w)))) assetId = Some a' \<and>
            decodeQueue a' = remove1 e2 (remove1 e (decodeQueue a)) \<and>
            decodeQueueByTimestamp a' ts = (if rest = [] then None else Some rest)) \<and>
      (q_deliver e \<and> q_deliver e2 \<and>
       (isInitialPrefill a \<longrightarrow> Suc (currentPrefillIndex a) < initialPrefillFrames a) \<and>
       copyMethod a \<noteq> Some Canvas \<and> \<not> vf_copyToFails f1 \<and> \<not> vf_copyToFails f2 \<longrightarrow>
         List.map_filter deliveredIndex (snd (runOutputs assetId [f1, f2] (lc, w))) =
           [targetOf e, targetOf e2]))"
proof (intro conjI impI)
  assume b: "decodeQueueByTimestamp a ts = Some (e # rest)"
  show "fst (matchQueueEntry a ts) = Some e" by (simp add: match_bucket[OF b])
  show "decodeQueueByTimestamp (snd (matchQueueEntry a ts)) ts = (if rest = [] then None else Some rest)"
    by (simp add: match_bucket[OF b])
  show "decodeQueue (snd (matchQueueEntry a ts)) = remove1 e (decodeQueue a)"
    by (simp add: match_bucket[OF b])
next
  assume h: "(decodeQueueByTimestamp a ts = None \<or> decodeQueueByTimestamp a ts = Some []) \<and>
    decodeQueue a = e # rest"
  then have n: "decodeQueueByTimestamp a ts = None \<or> decodeQueueByTimestamp a ts = Some []"
    and q: "decodeQueue a = e # rest" by simp_all
  show "fst (matchQueueEntry a ts) = Some e" by (simp add: match_head[OF n q])
  show "decodeQueue (snd (matchQueueEntry a ts)) = rest" by (simp add: match_head[OF n q])
  show "decodeQueueByTimestamp (snd (matchQueueEntry a ts)) (q_timestamp e) =
        (case decodeQueueByTimestamp a (q_timestamp e) of
           None \<Rightarrow> None
         | Some entries \<Rightarrow> if remove1 e entries = [] then None else Some (remove1 e entries))"
    by (simp add: match_head[OF n q] split: option.split)
next
  assume "(decodeQueueByTimestamp a ts = None \<or> decodeQueueByTimestamp a ts = Some []) \<and>
    decodeQueue a = []"
  then show "matchQueueEntry a ts = (None, a)" using match_none by blast
next
  assume h: "lookupAsset w assetId = Some a \<and>
    (decodeQueueByTimestamp a (vf_timestamp frame) = None \<or>
     decodeQueueByTimestamp a (vf_timestamp frame) = Some []) \<and>
    decodeQueue a = []"
  then have r: "lookupAsset w assetId = Some a"
    "decodeQueueByTimestamp a (vf_timestamp frame) = None \<or>
     decodeQueueByTimestamp a (vf_timestamp frame) = Some []" "decodeQueue a = []" by simp_all
  show "lc_frameIndex (fst (fst (decoderOutput assetId frame (lc, w)))) = Suc (lc_frameIndex lc)"
    by (rule unmatched_index(1)[OF r])
  show "set (List.map_filter deliveredIndex (snd (decoderOutput assetId frame (lc, w))))
        \<subseteq> {lc_frameIndex lc}"
    by (rule unmatched_index(2)[OF r])
next
  assume b: "decodeQueueByTimestamp a ts = Some (e # e2 # rest)"
  show "fst (matchQueueEntry a ts) = Some e" by (simp add: match_bucket[OF b])
  have "decodeQueueByTimestamp (snd (matchQueueEntry a ts)) ts = Some (e2 # rest)"
    by (simp add: match_bucket[OF b])
  from match_bucket[OF this]
  show "fst (matchQueueEntry (snd (matchQueueEntry a ts)) ts) = Some e2" by simp
next
  assume "bucketsMatchQueue a"
  then show "bucketsMatchQueue (snd (matchQueueEntry a ts))" by (rule match_keeps_buckets)
next
  assume h: "lookupAsset w assetId = Some a \<and>
    decodeQueueByTimestamp a (vf_timestamp frame) = Some (e # rest)"
  then have reg: "lookupAsset w assetId = Some a"
    and b: "decodeQueueByTimestamp a (vf_timestamp frame) = Some (e # rest)" by simp_all
  note o = output_from_bucket[OF reg b, of lc]
  show "\<exists>a'. lookupAsset (snd (fst (decoderOutput assetId frame (lc, w)))) assetId = Some a' \<and>
            decodeQueue a' = remove1 e (decodeQueue a) \<and>
            decodeQueueByTimestamp a' =
              (decodeQueueByTimestamp a)
                (vf_timestamp frame := (if rest = [] then None else Some rest))"
    using o by auto
  show "lc_frameIndex (fst (fst (decoderOutput assetId frame (lc, w)))) =
        max (lc_frameIndex lc) (Suc (targetOf e))"
    using o by auto
  show "List.map_filter deliveredIndex (snd (decoderOutput assetId frame (lc, w))) =
        (if q_deliver e \<and> \<not> warmUpFull a \<and>
            ConsoleError \<notin> set (snd (decoderOutput assetId frame (lc, w)))
         then [targetOf e] else [])"
    using o by auto
  show "ConsoleError \<notin> set (snd (decoderOutput assetId frame (lc, w)))"
    if "copyMethod a \<noteq> Some Canvas \<and> \<not> vf_copyToFails frame"
    using o that by auto
next
  assume h: "lookupAsset w assetId = Some a \<and>
    (decodeQueueByTimestamp a (vf_timestamp frame) = None \<or>
     decodeQueueByTimestamp a (vf_timestamp frame) = Some []) \<and>
    decodeQueue a = e # rest"
  then have reg: "lookupAsset w assetId = Some a"
    and n: "decodeQueueByTimestamp a (vf_timestamp frame) = None \<or>
            decodeQueueByTimestamp a (vf_timestamp frame) = Some []"
    and q: "decodeQueue a = e # rest" by simp_all
  note o = output_from_head[OF reg n q, of lc]
  show "\<exists>a'. lookupAsset (snd (fst (decoderOutput assetId frame (lc, w)))) assetId = Some a' \<and>
            decodeQueue a' = rest \<and>
            decodeQueueByTimestamp a' =
              (case decodeQueueByTimestamp a (q_timestamp e) of
                 None \<Rightarrow> decodeQueueByTimestamp a
               | Some entries \<Rightarrow>
                   (decodeQueueByTimestamp a)
                     (q_timestamp e := (if remove1 e entries = [] then None
                                        else Some (remove1 e entries))))"
    using o by auto
  show "lc_frameIndex (fst (fst (decoderOutput assetId frame (lc, w)))) =
        max (lc_frameIndex lc) (Suc (targetOf e))"
    using o by auto
  show "List.map_filter deliveredIndex (snd (decoderOutput assetId frame (lc, w))) =
        (if q_deliver e \<and> \<not> warmUpFull a \<and>
            ConsoleError \<notin> set (snd (decoderOutput assetId frame (lc, w)))
         then [targetOf e] else [])"
    using o by auto
  show "ConsoleError \<notin> set (snd (decoderOutput assetId frame (lc, w)))"
    if "copyMethod a \<noteq> Some Canvas \<and> \<not> vf_copyToFails frame"
    using o that by auto
next
  assume h: "lookupAsset w assetId = Some a \<and> decodeQueueByTimestamp a ts = Some (e # e2 # rest) \<and>
    vf_timestamp f1 = ts \<and> vf_timestamp f2 = ts"
  then have reg: "lookupAsset w assetId = Some a"
    and b: "decodeQueueByTimestamp a ts = Some (e # e2 # rest)"
    and t: "vf_timestamp f1 = ts" "vf_timestamp f2 = ts" by simp_all
  show "\<exists>a'. lookupAsset (snd (fst (runOutputs assetId [f1, f2] (lc, w)))) assetId = Some a' \<and>
            decodeQueue a' = remove1 e2 (remove1 e (decodeQueue a)) \<and>
            decodeQueueByTimestamp a' ts = (if rest = [] then None else Some rest)"
    by (rule two_outputs(1)[OF reg b t])
  show "List.map_filter deliveredIndex (snd (runOutputs assetId [f1, f2] (lc, w))) =
           [targetOf e, targetOf e2]"
    if "q_deliver e \<and> q_deliver e2 \<and>
       (isInitialPrefill a \<longrightarrow> Suc (currentPrefillIndex a) < initialPrefillFrames a) \<and>
       copyMethod a \<noteq> Some Canvas \<and> \<not> vf_copyToFails f1 \<and> \<not> vf_copyToFails f2"
    by (rule two_outputs(2)[OF reg b t that])
qed

section \<open>Two samples with one timestamp\<close>

lemma dup_tables:
  "tb_frameToDecode (buildTimeline 30000 30 dupSamples) = [Some 0, Some 1, Some 2]"
  "map timestampMicros (tb_samples (buildTimeline 30000 30 dupSamples)) = [Some 0, Some 33333, Some 33333]"
  by code_simp+

lemma dup_asset:
  "frameToDecode (assetWithSamples dupSamples) = [Some 0, Some 1, Some 2]"
  "map timestampMicros (samplesOf (assetWithSamples dupSamples)) = [Some 0, Some 33333, Some 33333]"
proof -
  have ne: "dupSamples \<noteq> []" by (simp add: dupSamples_def)
  show "frameToDecode (assetWithSamples dupSamples) = [Some 0, Some 1, Some 2]"
    using assetWithSamples_tables(1)[OF ne] dup_tables(1) by simp
  show "map timestampMicros (samplesOf (assetWithSamples dupSamples)) = [Some 0, Some 33333, Some 33333]"
    using assetWithSamples_tables(3)[OF ne] dup_tables(2) by (simp add: samplesOf_def)
qed

lemma upto_0_2: "[(0::int)..2] = [0, 1, 2]"
  by code_simp

lemma dup_ready: "hasFramesForRange (assetWithSamples dupSamples) 0 (Finite 3)"
  by (simp add: hasFramesForRange_def dup_asset(1) js_get_int_def js_get_def upto_0_2)

lemma dup_range:
  "keyframeIndexOf (assetWithSamples dupSamples) (samplesOf (assetWithSamples dupSamples)) 0 3 = 0"
  "maxDecodeIndexOf (assetWithSamples dupSamples) 0 3 = 2"
  by (simp_all add: keyframeIndexOf_def minDecodeIndexOf_def maxDecodeIndexOf_def requestedDecodeIndices_def
      dup_asset(1) js_get_int_def js_get_def upto_0_2 List.map_filter_simps
      minOfList_def maxOfList_def findKeyframeIndex_def)

lemma dup_timestamp:
  "q_timestamp (entryAt (assetWithSamples dupSamples) (samplesOf (assetWithSamples dupSamples)) ftd k 0) = 0"
  "q_timestamp (entryAt (assetWithSamples dupSamples) (samplesOf (assetWithSamples dupSamples)) ftd k (Suc 0)) = 33333"
  "q_timestamp (entryAt (assetWithSamples dupSamples) (samplesOf (assetWithSamples dupSamples)) ftd k 2) = 33333"
proof -
  let ?S = "samplesOf (assetWithSamples dupSamples)"
  have l: "length ?S = 3" using dup_asset(2) by (metis length_map length_Cons list.size(3) numeral_3_eq_3)
  have t: "timestampMicros (?S ! i) = [Some 0, Some 33333, Some 33333] ! i" if "i < 3" for i
  proof -
    have "map timestampMicros ?S ! i = [Some 0, Some 33333, Some 33333] ! i" by (simp only: dup_asset(2))
    then show ?thesis using that l by simp
  qed
  show "q_timestamp (entryAt (assetWithSamples dupSamples) ?S ftd k 0) = 0"
    using t[of 0] by (simp add: entryAt_def makeQueueEntry_def Let_def)
  show "q_timestamp (entryAt (assetWithSamples dupSamples) ?S ftd k (Suc 0)) = 33333"
    using t[of "Suc 0"] by (simp add: entryAt_def makeQueueEntry_def Let_def)
  show "q_timestamp (entryAt (assetWithSamples dupSamples) ?S ftd k 2) = 33333"
    using t[of 2] by (simp add: entryAt_def makeQueueEntry_def Let_def)
qed

lemma dup_state:
  "decodeQueue dupQueued =
     map (\<lambda>i. entryAt (assetWithSamples dupSamples) (samplesOf (assetWithSamples dupSamples)) [0..2] i i) [0, 1, 2]"
  "bucketsMatchQueue dupQueued"
proof -
  have e: "(0::int) + 3 - 1 = 2" by simp
  have b0: "bucketsMatchQueue (assetWithSamples dupSamples)"
    by (auto simp: bucketsMatchQueue_def example_fields example_prefill bucketOf_def)
  from feedBatch_ready_state[OF worldWith_lookup example_samples(1) example_not_busy dup_ready example_bound,
      unfolded dup_range example_fields append_Nil e]
  obtain a' where a': "lookupAsset (fst (feedBatch ''asset#2'' 0 (Finite 3) (worldWith (assetWithSamples dupSamples)))) ''asset#2'' = Some a'"
    "decodeQueue a' = map (\<lambda>(k, i). entryAt (assetWithSamples dupSamples) (samplesOf (assetWithSamples dupSamples)) [0..2] k i)
          (enumerate 0 [0..<Suc 2])"
    "bucketsMatchQueue (assetWithSamples dupSamples) \<longrightarrow> bucketsMatchQueue a'"
    by blast
  have d: "dupQueued = a'" by (simp add: dupQueued_def a'(1))
  have en: "enumerate 0 [0..<Suc 2] = [(0, 0), (1, 1), (2, 2::nat)]"
    by (simp add: enumerate_eq_zip upt_rec)
  show "decodeQueue dupQueued =
     map (\<lambda>i. entryAt (assetWithSamples dupSamples) (samplesOf (assetWithSamples dupSamples)) [0..2] i i) [0, 1, 2]"
    unfolding d a'(2) en by simp
  show "bucketsMatchQueue dupQueued" unfolding d using a'(3) b0 by simp
qed

lemma dup_decodeToFrame: "decodeToFrame (assetWithSamples dupSamples) = [Some 0, Some 1, Some 2]"
proof -
  have ne: "dupSamples \<noteq> []" by (simp add: dupSamples_def)
  have "tb_decodeToFrame (buildTimeline 30000 30 dupSamples) = [Some 0, Some 1, Some 2]"
    by code_simp
  then show ?thesis using assetWithSamples_tables(2)[OF ne] by simp
qed

lemma dup_world:
  "lookupAsset dupWorld ''asset#2'' = Some dupQueued"
  "copyMethod dupQueued = None" "isInitialPrefill dupQueued"
  "currentPrefillIndex dupQueued = 0" "initialPrefillFrames dupQueued = 10"
proof -
  let ?A = "assetWithSamples dupSamples"
  from feedBatch_keeps[OF worldWith_lookup[of ?A], of 0 "Finite 3"]
  obtain a' where a': "lookupAsset dupWorld ''asset#2'' = Some a'" "sameDelivery ?A a'"
    unfolding dupWorld_def by blast
  have d: "dupQueued = a'" using a'(1) by (simp add: dupQueued_def dupWorld_def)
  show "lookupAsset dupWorld ''asset#2'' = Some dupQueued" by (simp add: d a'(1))
  show "copyMethod dupQueued = None" "isInitialPrefill dupQueued"
    "currentPrefillIndex dupQueued = 0" "initialPrefillFrames dupQueued = 10"
    using a'(2) by (simp_all add: d sameDelivery_def example_fields example_prefill)
qed

lemma exampleFrame_fields:
  "vf_timestamp (exampleFrame ts b) = ts" "vf_copyToFails (exampleFrame ts b) = b"
  by (simp_all add: exampleFrame_def)

theorem matcher_order_witness:
  "map q_sampleIndex (decodeQueue dupQueued) = [0, 1, 2] \<and>
   map q_timestamp (decodeQueue dupQueued) = [0, 33333, 33333] \<and>
   map_option q_sampleIndex (fst (matchQueueEntry dupQueued 33333)) = Some 1 \<and>
   map_option q_sampleIndex (fst (matchQueueEntry (snd (matchQueueEntry dupQueued 33333)) 33333)) = Some 2 \<and>
   map q_sampleIndex (decodeQueue (snd (matchQueueEntry dupQueued 33333))) = [0, 2] \<and>
   lookupAsset dupWorld ''asset#2'' = Some dupQueued \<and>
   List.map_filter deliveredIndex
     (snd (runOutputs ''asset#2'' [exampleFrame 33333 False, exampleFrame 33333 False]
             (exampleClosure, dupWorld))) = [1, 2] \<and>
   map_option (\<lambda>a. map q_sampleIndex (decodeQueue a))
     (lookupAsset
        (snd (fst (runOutputs ''asset#2'' [exampleFrame 33333 False, exampleFrame 33333 False]
                     (exampleClosure, dupWorld)))) ''asset#2'') = Some [0] \<and>
   decodeQueueByTimestamp dupQueued 999 = None \<and>
   List.map_filter deliveredIndex
     (snd (decoderOutput ''asset#2'' (exampleFrame 999 False) (exampleClosure, dupWorld))) = [0] \<and>
   map_option (\<lambda>a. map q_sampleIndex (decodeQueue a))
     (lookupAsset
        (snd (fst (decoderOutput ''asset#2'' (exampleFrame 999 False) (exampleClosure, dupWorld))))
        ''asset#2'') = Some [1, 2] \<and>
   decodeQueue (assetWithSamples dupSamples) = [] \<and>
   lc_frameIndex exampleClosure = 0 \<and>
   lc_frameIndex
     (fst (fst (decoderOutput ''asset#2'' (exampleFrame 0 False)
                  (exampleClosure, worldWith (assetWithSamples dupSamples))))) = 1"
proof -
  let ?A = "assetWithSamples dupSamples" and ?S = "samplesOf (assetWithSamples dupSamples)"
  let ?e = "\<lambda>i. entryAt ?A ?S [0..2] i i"
  let ?f = "exampleFrame 33333 False"
  let ?g = "exampleFrame 999 False"
  have q: "decodeQueue dupQueued = [?e 0, ?e (Suc 0), ?e 2]" using dup_state(1) by simp
  note ts = dup_timestamp[where ftd="[0..2]"]
  have si: "q_sampleIndex (?e i) = i" for i by (simp add: entryAt_fields)
  have ne: "?e 0 \<noteq> ?e (Suc 0)" "?e 0 \<noteq> ?e 2" using si[of 0] si[of "Suc 0"] si[of 2] by auto
  have bk: "decodeQueueByTimestamp dupQueued t = bucketOf (decodeQueue dupQueued) t" for t
    using dup_state(2) by (simp add: bucketsMatchQueue_def)
  have b: "decodeQueueByTimestamp dupQueued 33333 = Some (?e (Suc 0) # ?e 2 # [])"
    by (simp add: bk q bucketOf_def ts)
  have b9: "decodeQueueByTimestamp dupQueued 999 = None"
    by (simp add: bk q bucketOf_def ts)
  have fi: "q_frameIndex (?e i) = js_get [Some 0, Some 1, Some 2] i" for i
    by (simp add: entryAt_fields dup_decodeToFrame)
  have tg: "targetOf (?e 0) = 0" "targetOf (?e (Suc 0)) = 1" "targetOf (?e 2) = 2"
    by (simp_all add: targetOf_def fi js_get_def)
  have dl: "q_deliver (?e 0)" "q_deliver (?e (Suc 0))" "q_deliver (?e 2)"
    using entryAt_fields(3)[of ?A ?S 0 3 0 0] entryAt_fields(3)[of ?A ?S 0 3 "Suc 0" "Suc 0"]
      entryAt_fields(3)[of ?A ?S 0 3 2 2]
    by (simp_all add: dup_decodeToFrame js_get_def inRequest_def)
  note m = matcher_order[where a=dupQueued and ts=33333 and e="?e (Suc 0)" and rest="[?e 2]",
      THEN conjunct1, THEN mp, OF b]
  have 1: "fst (matchQueueEntry dupQueued 33333) = Some (?e (Suc 0))" using m by simp
  note m2 = matcher_order[where a=dupQueued and ts=33333 and e="?e (Suc 0)" and rest="[]" and ?e2.0="?e 2"
      and w=dupWorld and assetId="''asset#2''" and ?f1.0="?f" and ?f2.0="?f" and lc=exampleClosure]
  note m5 = m2[THEN conjunct2, THEN conjunct2, THEN conjunct2, THEN conjunct2, THEN conjunct1,
      THEN mp, OF b]
  have 2: "fst (matchQueueEntry (snd (matchQueueEntry dupQueued 33333)) 33333) = Some (?e 2)"
    using m5 by simp
  have 3: "decodeQueue (snd (matchQueueEntry dupQueued 33333)) = remove1 (?e (Suc 0)) (decodeQueue dupQueued)"
    using m by simp
  have pre: "lookupAsset dupWorld ''asset#2'' = Some dupQueued \<and>
      decodeQueueByTimestamp dupQueued 33333 = Some (?e (Suc 0) # ?e 2 # []) \<and>
      vf_timestamp ?f = 33333 \<and> vf_timestamp ?f = 33333"
    using dup_world(1) b by (simp add: exampleFrame_fields)
  have cond: "q_deliver (?e (Suc 0)) \<and> q_deliver (?e 2) \<and>
       (isInitialPrefill dupQueued \<longrightarrow> Suc (currentPrefillIndex dupQueued) < initialPrefillFrames dupQueued) \<and>
       copyMethod dupQueued \<noteq> Some Canvas \<and> \<not> vf_copyToFails ?f \<and> \<not> vf_copyToFails ?f"
    using dl by (simp add: dup_world exampleFrame_fields)
  note m9 = m2[THEN conjunct2, THEN conjunct2, THEN conjunct2, THEN conjunct2, THEN conjunct2,
      THEN conjunct2, THEN conjunct2, THEN conjunct2, THEN mp, OF pre]
  note 4 = m9[THEN conjunct2, THEN mp, OF cond]
  from m9[THEN conjunct1]
  obtain a' where a': "lookupAsset (snd (fst (runOutputs ''asset#2'' [?f, ?f] (exampleClosure, dupWorld)))) ''asset#2'' = Some a'"
    "decodeQueue a' = remove1 (?e 2) (remove1 (?e (Suc 0)) (decodeQueue dupQueued))"
    by blast
  have 5: "map q_sampleIndex (decodeQueue a') = [0]"
    using ne by (simp add: a'(2) q si)
  have pre3: "lookupAsset dupWorld ''asset#2'' = Some dupQueued \<and>
      (decodeQueueByTimestamp dupQueued (vf_timestamp ?g) = None \<or>
       decodeQueueByTimestamp dupQueued (vf_timestamp ?g) = Some []) \<and>
      decodeQueue dupQueued = ?e 0 # [?e (Suc 0), ?e 2]"
    using dup_world(1) b9 q by (simp add: exampleFrame_fields)
  note m8 = matcher_order[where a=dupQueued and e="?e 0" and rest="[?e (Suc 0), ?e 2]"
      and w=dupWorld and assetId="''asset#2''" and frame="?g" and lc=exampleClosure,
      THEN conjunct2, THEN conjunct2, THEN conjunct2, THEN conjunct2, THEN conjunct2,
      THEN conjunct2, THEN conjunct2, THEN conjunct1, THEN mp, OF pre3]
  have ok3: "copyMethod dupQueued \<noteq> Some Canvas \<and> \<not> vf_copyToFails ?g"
    by (simp add: dup_world exampleFrame_fields)
  have nw: "\<not> warmUpFull dupQueued" by (simp add: warmUpFull_def dup_world)
  note ce = m8[THEN conjunct2, THEN conjunct2, THEN conjunct2, THEN mp, OF ok3]
  have 6: "List.map_filter deliveredIndex (snd (decoderOutput ''asset#2'' ?g (exampleClosure, dupWorld))) = [0]"
    using m8[THEN conjunct2, THEN conjunct2, THEN conjunct1] dl(1) nw ce tg(1) by simp
  from m8[THEN conjunct1]
  obtain a3 where a3: "lookupAsset (snd (fst (decoderOutput ''asset#2'' ?g (exampleClosure, dupWorld)))) ''asset#2'' = Some a3"
    "decodeQueue a3 = [?e (Suc 0), ?e 2]"
    by blast
  have 7: "map q_sampleIndex (decodeQueue a3) = [1, 2]" by (simp add: a3(2) si)
  let ?h = "exampleFrame 0 False"
  have pre4: "lookupAsset (worldWith ?A) ''asset#2'' = Some ?A \<and>
      (decodeQueueByTimestamp ?A (vf_timestamp ?h) = None \<or>
       decodeQueueByTimestamp ?A (vf_timestamp ?h) = Some []) \<and>
      decodeQueue ?A = []"
    by (simp add: worldWith_lookup example_fields example_prefill)
  note m4 = matcher_order[where a="?A" and w="worldWith ?A" and assetId="''asset#2''" and frame="?h"
      and lc=exampleClosure, THEN conjunct2, THEN conjunct2, THEN conjunct2, THEN conjunct1,
      THEN mp, OF pre4]
  note 8 = m4[THEN conjunct1]
  have 9: "lc_frameIndex exampleClosure = 0" by (simp add: exampleClosure_def)
  show ?thesis
    using ne(1) dup_world(1)
    by (simp add: 1 2 3 4 5 6 7 8 9 b9 a'(1) a3(1) q ts si tg example_fields del: runOutputs.simps)
qed

section \<open>Disposal\<close>

lemma dispose_absent:
  "lookupAsset w assetId = None \<Longrightarrow> disposeVideoAsset assetId w = (w, [])"
  by (auto simp: disposeVideoAsset_def lookupAsset_def split: option.splits)

lemma dispose_present:
  assumes "lookupAsset w assetId = Some a"
  shows "lookupAsset (fst (disposeVideoAsset assetId w)) assetId = None"
    and "decoders (fst (disposeVideoAsset assetId w)) (decoder a) = Closed"
    and "ptr a = 0 \<or> ptr a \<notin> heap (fst (disposeVideoAsset assetId w))"
    and "ConsoleWarn \<notin> set (snd (disposeVideoAsset assetId w))"
    and "decoders w (decoder a) = Closed \<Longrightarrow> DecoderClose (decoder a) \<notin> set (snd (disposeVideoAsset assetId w))"
    and "heap (fst (disposeVideoAsset assetId w)) \<subseteq> heap w"
proof -
  from assms obtain assets where r: "videoAssets w = Some assets" "assets assetId = Some a"
    by (auto simp: lookupAsset_def split: option.splits)
  show "lookupAsset (fst (disposeVideoAsset assetId w)) assetId = None"
    using r by (simp add: disposeVideoAsset_def lookupAsset_def Let_def split: prod.splits)
  show "decoders (fst (disposeVideoAsset assetId w)) (decoder a) = Closed"
    using r by (auto simp: disposeVideoAsset_def decoderClose_def free_def Let_def split: prod.splits if_splits)
  show "ptr a = 0 \<or> ptr a \<notin> heap (fst (disposeVideoAsset assetId w))"
    using r by (auto simp: disposeVideoAsset_def decoderClose_def free_def Let_def split: prod.splits if_splits)
  show "ConsoleWarn \<notin> set (snd (disposeVideoAsset assetId w))"
    using r by (auto simp: disposeVideoAsset_def decoderClose_def free_def Let_def split: prod.splits if_splits)
  show "decoders w (decoder a) = Closed \<Longrightarrow> DecoderClose (decoder a) \<notin> set (snd (disposeVideoAsset assetId w))"
    using r by (auto simp: disposeVideoAsset_def decoderClose_def free_def Let_def split: prod.splits if_splits)
  show "heap (fst (disposeVideoAsset assetId w)) \<subseteq> heap w"
    using r by (auto simp: disposeVideoAsset_def decoderClose_def free_def Let_def split: prod.splits if_splits)
qed

lemma dispose_unregisters: "lookupAsset (fst (disposeVideoAsset assetId w)) assetId = None"
proof (cases "lookupAsset w assetId")
  case None
  then show ?thesis by (simp add: dispose_absent)
next
  case (Some a)
  then show ?thesis by (rule dispose_present(1))
qed

lemma dispose_quiet: "ConsoleWarn \<notin> set (snd (disposeVideoAsset assetId w))"
proof (cases "lookupAsset w assetId")
  case None
  then show ?thesis by (simp add: dispose_absent)
next
  case (Some a)
  then show ?thesis by (rule dispose_present(4))
qed

text \<open>
  Claim C9. Disposal when no asset is registered changes nothing. After a disposal the
  identifier is unregistered, so a second disposal in a row changes nothing either. No
  call of disposal has an exception to catch (nothing is logged). After disposing a
  registered asset its decoder is closed and its pixel buffer, if it had one, is no
  longer allocated; when the decoder was already closed, \<^verbatim>\<open>close()\<close> is not called on it.
\<close>

theorem disposal_idempotent:
  "(lookupAsset w assetId = None \<longrightarrow> disposeVideoAsset assetId w = (w, [])) \<and>
   lookupAsset (fst (disposeVideoAsset assetId w)) assetId = None \<and>
   disposeVideoAsset assetId (fst (disposeVideoAsset assetId w)) = (fst (disposeVideoAsset assetId w), []) \<and>
   ConsoleWarn \<notin> set (snd (disposeVideoAsset assetId w)) \<and>
   (lookupAsset w assetId = Some a \<longrightarrow>
      decoders (fst (disposeVideoAsset assetId w)) (decoder a) = Closed \<and>
      (ptr a = 0 \<or> ptr a \<notin> heap (fst (disposeVideoAsset assetId w))) \<and>
      (decoders w (decoder a) = Closed \<longrightarrow>
         DecoderClose (decoder a) \<notin> set (snd (disposeVideoAsset assetId w))))"
  using dispose_absent[of w assetId] dispose_unregisters[of assetId w]
    dispose_absent[OF dispose_unregisters[of assetId w]] dispose_quiet[of assetId w]
    dispose_present(2,3,5)[of w assetId a]
  by blast

lemma example_ptr: "ptr (assetWithSamples ss) = 4096"
  by (simp add: assetWithSamples_def updatePresentationTimeline_def newAsset_def Let_def split: option.splits)

theorem disposal_idempotent_witness:
  "lookupAsset (worldWith (assetWithSamples reorderedSamples)) ''asset#2'' = Some (assetWithSamples reorderedSamples) \<and>
   decoders (worldWith (assetWithSamples reorderedSamples)) 1 = Configured \<and>
   4096 \<in> heap (worldWith (assetWithSamples reorderedSamples)) \<and>
   decoders (fst (disposeVideoAsset ''asset#2'' (worldWith (assetWithSamples reorderedSamples)))) 1 = Closed \<and>
   4096 \<notin> heap (fst (disposeVideoAsset ''asset#2'' (worldWith (assetWithSamples reorderedSamples)))) \<and>
   disposeVideoAsset ''asset#2'' (fst (disposeVideoAsset ''asset#2'' (worldWith (assetWithSamples reorderedSamples))))
     = (fst (disposeVideoAsset ''asset#2'' (worldWith (assetWithSamples reorderedSamples))), []) \<and>
   disposeVideoAsset ''asset#2'' exampleWorld = (exampleWorld, [])"
proof -
  let ?A = "assetWithSamples reorderedSamples"
  have n: "lookupAsset exampleWorld ''asset#2'' = None" by (simp add: lookupAsset_def exampleWorld_def)
  have h: "4096 \<in> heap (worldWith ?A)" "decoders (worldWith ?A) 1 = Configured"
    by (simp_all add: worldWith_def)
  from disposal_idempotent[of "worldWith ?A" "''asset#2''" ?A]
    disposal_idempotent[of exampleWorld "''asset#2''" ?A] n h
    worldWith_lookup[of ?A] example_ptr[of reorderedSamples] example_fields(4)[of reorderedSamples]
  show ?thesis by simp
qed

section \<open>Load failures\<close>








































end
